theory Spec2Isabelle
  imports
    Complex_Main
    "HOL-Library.Char_ord"
    "HOL-Library.List_Lexorder"
    "HOL-Library.Sublist"
    "HOL-Library.Multiset"
    "HOL-Library.AList"
begin

section \<open>Python values, exceptions and paths\<close>

text \<open>
  The model follows \<^verbatim>\<open>tetra3_pipeline.py\<close>. Values that travel through the
  program unchanged (solver results, CSV cells, command-line numbers) are kept as
  Python values; a float is carried as a real number and never computed with.
\<close>

datatype pyval = PyNone | PyBool bool | PyInt int | PyFloat real | PyStr string

text \<open>Python's \<^verbatim>\<open>bool(v)\<close>.\<close>

fun truthy :: "pyval \<Rightarrow> bool" where
  "truthy PyNone = False"
| "truthy (PyBool b) = b"
| "truthy (PyInt i) = (i \<noteq> 0)"
| "truthy (PyFloat r) = (r \<noteq> 0)"
| "truthy (PyStr s) = (s \<noteq> [])"

text \<open>
  What a call can raise. \<open>PyException msg\<close> stands for any instance of
  \<^verbatim>\<open>Exception\<close>, with its message \<^verbatim>\<open>str(e)\<close>; \<open>KeyboardInterrupt\<close> and
  \<open>SystemExit\<close> derive from \<^verbatim>\<open>BaseException\<close> only, so \<^verbatim>\<open>except Exception\<close>
  lets them through.
\<close>

datatype py_exc = PyException string | KeyboardInterrupt | SystemExit int

text \<open>
  A path is the tuple \<^verbatim>\<open>Path.parts\<close> of a POSIX path: an absolute path starts with
  the part \<^verbatim>\<open>/\<close>. Joining with a single file name appends one part. Paths are
  taken without \<^verbatim>\<open>..\<close> parts and without symbolic links.
\<close>

type_synonym path = "string list"

definition is_absolute :: "path \<Rightarrow> bool" where
  "is_absolute p = (case p of [] \<Rightarrow> False | r # _ \<Rightarrow> r = ''/'')"

definition joinpath :: "path \<Rightarrow> string \<Rightarrow> path" where
  "joinpath d name = d @ [name]"

definition parent :: "path \<Rightarrow> path" where
  "parent p = (if p = [''/''] then p else butlast p)"

fun join_with :: "string \<Rightarrow> string list \<Rightarrow> string" where
  "join_with sep [] = []"
| "join_with sep [x] = x"
| "join_with sep (x # y # ys) = x @ sep @ join_with sep (y # ys)"

text \<open>\<^verbatim>\<open>str(path)\<close>.\<close>

definition path_str :: "path \<Rightarrow> string" where
  "path_str p =
     (case p of
        [] \<Rightarrow> ''.''
      | r # rest \<Rightarrow> if r = ''/'' then ''/'' @ join_with ''/'' rest else join_with ''/'' p)"

section \<open>The process and its file system\<close>

text \<open>
  A file is kept as the list of CSV rows it holds; a row is the list that was handed to
  \<^verbatim>\<open>writer.writerow\<close>. The file system is an association list from absolute paths to
  nodes, in the order in which the operating system lists them.
\<close>

type_synonym csv_row = "pyval list"

datatype node = Dir | File "csv_row list"

text \<open>One piece of a printed line: literal text or a formatted value.\<close>

datatype frag = S string | V pyval

text \<open>
  Everything the program does to the outside, in order: console lines, existence probes,
  directory creation and change, opening and closing of the CSV file, and the calls into
  the tetra3 library.
\<close>

datatype event =
    Print "frag list"
  | Probe path
  | MkdirParents path
  | Chdir path
  | OpenW path
  | CloseF path
  | LoadDatabase string
  | SolveCall nat string
  | GenerateCall path real real string real string

record world =
  cwd :: path
  homes :: "string \<Rightarrow> path option"
  fs :: "(path \<times> node) list"
  open_files :: "path set"
  clock :: string
  trace :: "event list"

definition emit :: "event \<Rightarrow> world \<Rightarrow> world" where
  "emit e w = w\<lparr>trace := trace w @ [e]\<rparr>"

definition print :: "frag list \<Rightarrow> world \<Rightarrow> world" where
  "print line w = emit (Print line) w"

text \<open>
  \<^verbatim>\<open>Path.expanduser()\<close>: a relative path whose first part starts with \<^verbatim>\<open>~\<close> has that
  part replaced by the home directory of the named user (the empty name is the current
  user); \<^verbatim>\<open>RuntimeError\<close> when the home directory cannot be determined.
\<close>

definition expanduser :: "world \<Rightarrow> path \<Rightarrow> py_exc + path" where
  "expanduser w p =
     (case p of
        [] \<Rightarrow> Inr p
      | x # rest \<Rightarrow>
          (case x of
             [] \<Rightarrow> Inr p
           | c # user \<Rightarrow>
               if c = CHR ''~'' then
                 (case homes w user of
                    None \<Rightarrow> Inl (PyException ''Could not determine home directory.'')
                  | Some h \<Rightarrow> Inr (h @ rest))
               else Inr p))"

text \<open>\<^verbatim>\<open>Path.resolve()\<close>, and the way the system reads a relative path.\<close>

definition resolve :: "world \<Rightarrow> path \<Rightarrow> path" where
  "resolve w p = (if is_absolute p then p else cwd w @ p)"

definition lookup :: "world \<Rightarrow> path \<Rightarrow> node option" where
  "lookup w p = map_of (fs w) (resolve w p)"

definition path_exists :: "world \<Rightarrow> path \<Rightarrow> bool" where
  "path_exists w p = (lookup w p \<noteq> None)"

definition is_dir :: "world \<Rightarrow> path \<Rightarrow> bool" where
  "is_dir w p = (lookup w p = Some Dir)"

text \<open>The names in a directory, each once, in the order the system lists them.\<close>

definition entries :: "world \<Rightarrow> path \<Rightarrow> string list" where
  "entries w d =
     remdups (map (\<lambda>(q, n). last q)
       (filter (\<lambda>(q, n). q \<noteq> [] \<and> butlast q = resolve w d) (fs w)))"

text \<open>
  \<^verbatim>\<open>fnmatch\<close> for the patterns this program uses: a leading \<^verbatim>\<open>*\<close> followed by literal
  text matches every name that ends with the text (case-sensitively, as on POSIX; a
  leading dot in the name is not special for \<^verbatim>\<open>Path.glob\<close>).
\<close>

definition fnmatch :: "string \<Rightarrow> string \<Rightarrow> bool" where
  "fnmatch name pat =
     (case pat of
        [] \<Rightarrow> name = []
      | c # lit \<Rightarrow> if c = CHR ''*'' then suffix lit name else name = pat)"

definition glob :: "world \<Rightarrow> path \<Rightarrow> string \<Rightarrow> path list" where
  "glob w pth pat = map (joinpath pth) (filter (\<lambda>name. fnmatch name pat) (entries w pth))"

text \<open>
  \<^verbatim>\<open>Path.mkdir(parents=True, exist_ok=True)\<close>: every missing ancestor and the directory
  itself are created, shortest path first; an existing directory is accepted, an
  existing file on the way is an error, and what was created before the error stays.
\<close>

fun mkdirs :: "(path \<times> node) list \<Rightarrow> path list \<Rightarrow> py_exc option \<times> (path \<times> node) list" where
  "mkdirs tree [] = (None, tree)"
| "mkdirs tree (q # qs) =
     (case map_of tree q of
        Some (File rows) \<Rightarrow> (Some (PyException ''FileExistsError''), tree)
      | Some Dir \<Rightarrow> mkdirs tree qs
      | None \<Rightarrow> mkdirs (AList.update q Dir tree) qs)"

definition mkdir_parents :: "world \<Rightarrow> path \<Rightarrow> py_exc option \<times> world" where
  "mkdir_parents w d =
     (let w1 = emit (MkdirParents d) w;
          (err, tree) = mkdirs (fs w1) (tl (prefixes (resolve w1 d)))
      in (err, w1\<lparr>fs := tree\<rparr>))"

text \<open>\<^verbatim>\<open>os.chdir\<close>: fails when the target is not a directory.\<close>

definition chdir :: "world \<Rightarrow> path \<Rightarrow> py_exc option \<times> world" where
  "chdir w d =
     (if is_dir w d then (None, emit (Chdir d) (w\<lparr>cwd := resolve w d\<rparr>))
      else (Some (PyException ''FileNotFoundError''), w))"

text \<open>
  \<^verbatim>\<open>open(path, "w")\<close>: fails on a directory and when the parent is not a directory;
  otherwise the file exists afterwards, empty, whatever it held before.
\<close>

definition open_w :: "world \<Rightarrow> path \<Rightarrow> py_exc option \<times> world" where
  "open_w w p =
     (if is_dir w p then (Some (PyException ''IsADirectoryError''), w)
      else if \<not> is_dir w (parent (resolve w p)) then (Some (PyException ''FileNotFoundError''), w)
      else (None, emit (OpenW p)
              (w\<lparr>fs := AList.update (resolve w p) (File []) (fs w),
                 open_files := insert p (open_files w)\<rparr>)))"

definition writerow :: "world \<Rightarrow> path \<Rightarrow> csv_row \<Rightarrow> world" where
  "writerow w p row =
     (case lookup w p of
        Some (File rows) \<Rightarrow> w\<lparr>fs := AList.update (resolve w p) (File (rows @ [row])) (fs w)\<rparr>
      | _ \<Rightarrow> w)"

definition close_file :: "world \<Rightarrow> path \<Rightarrow> world" where
  "close_file w p = emit (CloseF p) (w\<lparr>open_files := open_files w - {p}\<rparr>)"

section \<open>The tetra3 library\<close>

text \<open>
  The external library is a parameter. \<open>load_database\<close> is the constructor
  \<^verbatim>\<open>tetra3.Tetra3(load_database=...)\<close>; \<open>solve_from_image\<close> gets the number of
  earlier solve calls of the run, so its answer may change from call to call;
  \<open>generate_database\<close> sees the file system and the current directory and may change
  both.
\<close>

datatype outcome = Raises py_exc | Returns "string \<Rightarrow> pyval option"

record tetra3 =
  load_database :: "string \<Rightarrow> py_exc option"
  solve_from_image ::
    "nat \<Rightarrow> string \<Rightarrow> real \<Rightarrow> real \<Rightarrow> (string \<times> pyval) list option \<Rightarrow> outcome"
  generate_database ::
    "(path \<times> node) list \<Rightarrow> path \<Rightarrow> real \<Rightarrow> real \<Rightarrow> string \<Rightarrow> real \<Rightarrow> string
       \<Rightarrow> py_exc option \<times> (path \<times> node) list \<times> path"

section \<open>Catalog check\<close>

definition required :: "(string \<times> string) list" where
  "required =
     [(''hip_main'', ''hip_main.dat''),
      (''tyc_main'', ''tyc_main.dat''),
      (''bsc5'', ''bsc5.dat'')]"

text \<open>The list \<^verbatim>\<open>search_dirs\<close>: the catalog directory, when given, then the current one.\<close>

definition search_dirs :: "path option \<Rightarrow> world \<Rightarrow> path list" where
  "search_dirs catalog_dir w = (case catalog_dir of Some d \<Rightarrow> [d] | None \<Rightarrow> []) @ [cwd w]"

text \<open>The loop over \<^verbatim>\<open>search_dirs\<close>: returns at the first directory that has the file.\<close>

fun probe_dirs :: "world \<Rightarrow> path list \<Rightarrow> string \<Rightarrow> bool \<times> world" where
  "probe_dirs w [] filename = (False, w)"
| "probe_dirs w (d # ds) filename =
     (let w1 = emit (Probe (joinpath d filename)) w in
      if path_exists w (joinpath d filename) then (True, w1)
      else probe_dirs w1 ds filename)"

definition ensure_catalog_available :: "string \<Rightarrow> path option \<Rightarrow> world \<Rightarrow> py_exc option \<times> world" where
  "ensure_catalog_available star_catalog catalog_dir w =
     (case map_of required star_catalog of
        None \<Rightarrow>
          (Some (SystemExit 2),
           print [S ''ERROR: Unsupported star_catalog '', S [CHR 0x27], S star_catalog,
                  S [CHR 0x27], S ''. Use one of: '', S (join_with '', '' (map fst required))] w)
      | Some filename \<Rightarrow>
          (let (found, w1) = probe_dirs w (search_dirs catalog_dir w) filename
           in if found then (None, w1)
              else
                (let where = (case catalog_dir of Some d \<Rightarrow> path_str d | None \<Rightarrow> path_str (cwd w1));
                     w2 = print [S ''ERROR: Required catalog file '', S [CHR 0x27], S filename,
                                 S [CHR 0x27], S '' not found in '', S [CHR 0x27], S where,
                                 S [CHR 0x27], S '' or current directory.''] w1;
                     w3 = (if star_catalog = ''hip_main'' then
                             print [S ''  https://cdsarc.cds.unistra.fr/ftp/cats/I/239/hip_main.dat'']
                               (print [S ''Download HIPPARCOS '', S [CHR 0x27], S ''hip_main.dat'',
                                       S [CHR 0x27], S '' from:''] w2)
                           else if star_catalog = ''bsc5'' then
                             print [S ''  http://tdc-www.harvard.edu/catalogs/bsc5.html'']
                               (print [S ''Download the BSC5 byte-format file from:''] w2)
                           else
                             print [S ''Ensure you have the correct Tycho-2 main file and rename it to '',
                                    S [CHR 0x27], S ''tyc_main.dat'', S [CHR 0x27], S ''.''] w2)
                 in (Some (SystemExit 3), w3))))"

section \<open>Command-line arguments\<close>

text \<open>
  The namespaces that \<^verbatim>\<open>argparse\<close> builds. A path argument is given by the parts of
  \<^verbatim>\<open>Path(arg)\<close>; an optional argument that is \<^verbatim>\<open>None\<close> or the empty string, which the
  program treats alike, is \<open>None\<close>.
\<close>

record gen_args =
  star_catalog :: string
  catalog_dir :: "path option"
  min_fov :: real
  max_fov :: real
  star_max_magnitude :: real
  out_file :: path

record solve_args =
  images :: "path list"
  database :: path
  fov_estimate :: real
  fov_max_error :: real
  min_sum :: "int option"
  max_axis_ratio :: "real option"
  min_distance :: "int option"
  csv :: "path option"

datatype command = GenerateDb gen_args | Solve solve_args

section \<open>generate-db\<close>

text \<open>
  The context manager \<^verbatim>\<open>pushd\<close> with the body of its \<^verbatim>\<open>with\<close> block: the body runs
  only when the first \<^verbatim>\<open>os.chdir\<close> succeeded, and the \<^verbatim>\<open>finally\<close> clause runs whether
  the body returned or raised; an error of the second \<^verbatim>\<open>os.chdir\<close> replaces the body's.
\<close>

definition pushd ::
  "path \<Rightarrow> (world \<Rightarrow> py_exc option \<times> world) \<Rightarrow> world \<Rightarrow> py_exc option \<times> world" where
  "pushd new_dir body w =
     (let prev = cwd w in
      case chdir w new_dir of
        (Some e, w1) \<Rightarrow> (Some e, w1)
      | (None, w1) \<Rightarrow>
          (let (r, w2) = body w1 in
           case chdir w2 prev of
             (Some e, w3) \<Rightarrow> (Some e, w3)
           | (None, w3) \<Rightarrow> (r, w3)))"

definition generate_db_core :: "tetra3 \<Rightarrow> gen_args \<Rightarrow> path \<Rightarrow> world \<Rightarrow> py_exc option \<times> world" where
  "generate_db_core lib a out_path w =
     (let w1 = emit (GenerateCall (cwd w) (min_fov a) (max_fov a) (star_catalog a)
                       (star_max_magnitude a) (path_str out_path)) w;
          (err, tree, dir) = generate_database lib (fs w1) (cwd w1) (min_fov a) (max_fov a)
                               (star_catalog a) (star_max_magnitude a) (path_str out_path)
      in (err, w1\<lparr>fs := tree, cwd := dir\<rparr>))"

definition cmd_generate_db :: "tetra3 \<Rightarrow> gen_args \<Rightarrow> world \<Rightarrow> py_exc option \<times> world" where
  "cmd_generate_db lib a w =
     (case expanduser w (out_file a) of
        Inl e \<Rightarrow> (Some e, w)
      | Inr op \<Rightarrow>
          (let out_path = resolve w op in
           case mkdir_parents w (parent out_path) of
             (Some e, w1) \<Rightarrow> (Some e, w1)
           | (None, w1) \<Rightarrow>
               (case (case catalog_dir a of
                        None \<Rightarrow> Inr None
                      | Some c \<Rightarrow>
                          (case expanduser w1 c of
                             Inl e \<Rightarrow> Inl e
                           | Inr cp \<Rightarrow> Inr (Some (resolve w1 cp)))) of
                  Inl e \<Rightarrow> (Some e, w1)
                | Inr cdir \<Rightarrow>
                    (case ensure_catalog_available (star_catalog a) cdir w1 of
                       (Some e, w2) \<Rightarrow> (Some e, w2)
                     | (None, w2) \<Rightarrow>
                         (let w3 =
                                print [S ''  output db        : '', S (path_str out_path)]
                               (print [S ''  mag limit        : '', V (PyFloat (star_max_magnitude a))]
                               (print [S ''  FOV range (deg)  : '', V (PyFloat (min_fov a)),
                                       S '' -> '', V (PyFloat (max_fov a))]
                               (print [S ''  catalog_dir      : '',
                                       S (case cdir of Some d \<Rightarrow> path_str d
                                          | None \<Rightarrow> ''(current dir)'')]
                               (print [S ''  star_catalog     : '', S (star_catalog a)]
                               (print [S ''['', S (clock w2), S ''] Generating database...''] w2)))))
                          in case (case cdir of
                                     Some d \<Rightarrow> pushd d (generate_db_core lib a out_path) w3
                                   | None \<Rightarrow> generate_db_core lib a out_path w3) of
                               (Some e, w4) \<Rightarrow> (Some e, w4)
                             | (None, w4) \<Rightarrow>
                                 (None, print [S ''[OK] Database created: '',
                                               S (path_str out_path)] w4))))))"

section \<open>solve\<close>

definition image_patterns :: "string list" where
  "image_patterns = [''*.jpg'', ''*.jpeg'', ''*.png'', ''*.tif'', ''*.tiff'', ''*.bmp'', ''*.fits'']"

text \<open>
  The loop that fills \<^verbatim>\<open>images\<close>: a directory contributes the sorted matches of the
  seven patterns, anything else is appended as it is.
  \<^verbatim>\<open>sorted\<close> compares paths part by part and the parts as strings, character by
  character, which is the lexicographic order on lists used here.
\<close>

fun expand_images :: "world \<Rightarrow> path list \<Rightarrow> path list \<Rightarrow> py_exc + path list" where
  "expand_images w imgs [] = Inr imgs"
| "expand_images w imgs (p # ps) =
     (case expanduser w p of
        Inl e \<Rightarrow> Inl e
      | Inr pth \<Rightarrow>
          if is_dir w pth then
            expand_images w (imgs @ sort (concat (map (glob w pth) image_patterns))) ps
          else expand_images w (imgs @ [pth]) ps)"

definition parse_extract_dict :: "solve_args \<Rightarrow> (string \<times> pyval) list" where
  "parse_extract_dict a =
     (case min_sum a of Some v \<Rightarrow> [(''min_sum'', PyInt v)] | None \<Rightarrow> []) @
     (case max_axis_ratio a of Some v \<Rightarrow> [(''max_axis_ratio'', PyFloat v)] | None \<Rightarrow> []) @
     (case min_distance a of Some v \<Rightarrow> [(''min_distance'', PyInt v)] | None \<Rightarrow> [])"

definition csv_header :: csv_row where
  "csv_header = [PyStr ''image'', PyStr ''success'', PyStr ''ra_deg'', PyStr ''dec_deg'',
                 PyStr ''rotation_deg'', PyStr ''fov_deg'']"

text \<open>\<^verbatim>\<open>res.get(key, default)\<close>.\<close>

definition dict_get :: "(string \<Rightarrow> pyval option) \<Rightarrow> string \<Rightarrow> pyval \<Rightarrow> pyval" where
  "dict_get d k dflt = (case d k of None \<Rightarrow> dflt | Some v \<Rightarrow> v)"

text \<open>
  The opening of the CSV file in \<^verbatim>\<open>cmd_solve\<close>: without a CSV argument there is
  no writer; with one, the parent directories are made, the file is opened for writing
  and the header row is written.
\<close>

definition open_csv :: "world \<Rightarrow> path option \<Rightarrow> (py_exc + path option) \<times> world" where
  "open_csv w csv_arg =
     (case csv_arg of
        None \<Rightarrow> (Inr None, w)
      | Some c \<Rightarrow>
          (case expanduser w c of
             Inl e \<Rightarrow> (Inl e, w)
           | Inr cp \<Rightarrow>
               (let csv_path = resolve w cp in
                case mkdir_parents w (parent csv_path) of
                  (Some e, w1) \<Rightarrow> (Inl e, w1)
                | (None, w1) \<Rightarrow>
                    (case open_w w1 csv_path of
                       (Some e, w2) \<Rightarrow> (Inl e, w2)
                     | (None, w2) \<Rightarrow>
                         (Inr (Some csv_path), writerow w2 csv_path csv_header)))))"

text \<open>
  Everything of \<^verbatim>\<open>cmd_solve\<close> before its \<^verbatim>\<open>try\<close>: the database check, the expansion
  of the image arguments, the loading of the database and the opening of the CSV file.
  It hands the images, the extraction parameters and the CSV path to the loop.
\<close>

definition solve_prelude ::
  "tetra3 \<Rightarrow> solve_args \<Rightarrow> world
     \<Rightarrow> (py_exc + path list \<times> (string \<times> pyval) list \<times> path option) \<times> world" where
  "solve_prelude lib a w =
     (case expanduser w (database a) of
        Inl e \<Rightarrow> (Inl e, w)
      | Inr dp \<Rightarrow>
          (let db_path = resolve w dp;
               w1 = emit (Probe db_path) w
           in if \<not> path_exists w1 db_path then
                (Inl (SystemExit 4),
                 print [S ''Generate it first with the '', S [CHR 0x27], S ''generate-db'',
                        S [CHR 0x27], S '' command.'']
                   (print [S ''ERROR: Database file not found: '', S (path_str db_path)] w1))
              else
                (case expand_images w1 [] (images a) of
                   Inl e \<Rightarrow> (Inl e, w1)
                 | Inr imgs \<Rightarrow>
                     if imgs = [] then
                       (Inl (SystemExit 5), print [S ''ERROR: No images to solve.''] w1)
                     else
                       (let w2 = emit (LoadDatabase (path_str db_path))
                                   (print [S ''['', S (clock w1), S ''] Loading database: '',
                                           S (path_str db_path)] w1)
                        in case load_database lib (path_str db_path) of
                             Some e \<Rightarrow> (Inl e, w2)
                           | None \<Rightarrow>
                               (let extract_dict = parse_extract_dict a;
                                    w3 = print [S ''FOV estimate: '', V (PyFloat (fov_estimate a)),
                                                S '' deg  |  FOV max error: '',
                                                V (PyFloat (fov_max_error a)), S '' deg''] w2;
                                    w4 = (if extract_dict \<noteq> [] then
                                            print (S ''extract_dict: '' #
                                                   concat (map (\<lambda>(k, v). [S k, V v]) extract_dict)) w3
                                          else w3)
                                in case open_csv w4 (csv a) of
                                     (Inl e, w5) \<Rightarrow> (Inl e, w5)
                                   | (Inr csv_path, w5) \<Rightarrow>
                                       (Inr (imgs, extract_dict, csv_path), w5))))))"

text \<open>
  The \<^verbatim>\<open>for\<close> loop inside the \<^verbatim>\<open>try\<close>. \<open>k\<close> counts the solve calls made so far.
  An \<^verbatim>\<open>Exception\<close> of the solver is handled and the loop goes on; any other raise
  leaves the loop.
\<close>

fun solve_loop ::
  "tetra3 \<Rightarrow> real \<Rightarrow> real \<Rightarrow> (string \<times> pyval) list option \<Rightarrow> path option
     \<Rightarrow> nat \<Rightarrow> path list \<Rightarrow> world \<Rightarrow> py_exc option \<times> world" where
  "solve_loop lib fe fme ed writer k [] w = (None, w)"
| "solve_loop lib fe fme ed writer k (img # rest) w =
     (let w1 = emit (SolveCall k (path_str img))
                 (print [S (CHR 0x0A # ''Solving: ''), S (path_str img)] w)
      in case solve_from_image lib k (path_str img) fe fme ed of
           Raises (PyException msg) \<Rightarrow>
             (let w2 = print [S ''  ERROR during solve: '', S msg] w1;
                  w3 = (case writer of
                          Some c \<Rightarrow> writerow w2 c [PyStr (path_str img), PyBool False,
                                                    PyStr [], PyStr [], PyStr [], PyStr []]
                        | None \<Rightarrow> w2)
              in solve_loop lib fe fme ed writer (Suc k) rest w3)
         | Raises e \<Rightarrow> (Some e, w1)
         | Returns res \<Rightarrow>
             (let success = truthy (dict_get res ''success'' (PyBool False));
                  ra = dict_get res ''ra_deg'' (PyStr []);
                  dec = dict_get res ''dec_deg'' (PyStr []);
                  rot = dict_get res ''rotation_deg'' (PyStr []);
                  fov = dict_get res ''fov_deg'' (PyStr []);
                  w2 = (if success then
                          print [S ''  SUCCESS  RA='', V ra, S ''  DEC='', V dec,
                                 S ''  ROT='', V rot, S ''  FOV='', V fov] w1
                        else print [S ''  FAILED''] w1);
                  w3 = (case writer of
                          Some c \<Rightarrow> writerow w2 c [PyStr (path_str img), PyBool success,
                                                    ra, dec, rot, fov]
                        | None \<Rightarrow> w2)
              in solve_loop lib fe fme ed writer (Suc k) rest w3))"

text \<open>\<^verbatim>\<open>cmd_solve\<close>: the prelude, then the loop under \<^verbatim>\<open>try\<close> and the \<^verbatim>\<open>finally\<close> clause.\<close>

definition cmd_solve :: "tetra3 \<Rightarrow> solve_args \<Rightarrow> world \<Rightarrow> py_exc option \<times> world" where
  "cmd_solve lib a w =
     (case solve_prelude lib a w of
        (Inl e, w1) \<Rightarrow> (Some e, w1)
      | (Inr (imgs, extract_dict, csv_path), w1) \<Rightarrow>
          (let (r, w2) = solve_loop lib (fov_estimate a) (fov_max_error a)
                           (if extract_dict \<noteq> [] then Some extract_dict else None)
                           csv_path 0 imgs w1
           in case csv_path of
                Some c \<Rightarrow>
                  (r, print [S (CHR 0x0A # ''[OK] Results saved to CSV: ''), S (path_str c)]
                        (close_file w2 c))
              | None \<Rightarrow> (r, w2)))"

section \<open>main\<close>

text \<open>
  \<^verbatim>\<open>main\<close> on an already parsed command line: the command's return gives 0, a
  \<^verbatim>\<open>KeyboardInterrupt\<close> gives 130, anything else propagates.
\<close>

definition main :: "tetra3 \<Rightarrow> command \<Rightarrow> world \<Rightarrow> (py_exc + int) \<times> world" where
  "main lib c w =
     (case (case c of GenerateDb a \<Rightarrow> cmd_generate_db lib a w | Solve a \<Rightarrow> cmd_solve lib a w) of
        (None, w1) \<Rightarrow> (Inr 0, w1)
      | (Some KeyboardInterrupt, w1) \<Rightarrow> (Inr 130, print [S (CHR 0x0A # ''Interrupted.'')] w1)
      | (Some e, w1) \<Rightarrow> (Inl e, w1))"

text \<open>
  The exit status of \<^verbatim>\<open>sys.exit(main())\<close>: the returned code, the code of a
  \<^verbatim>\<open>sys.exit\<close> inside, and 1 for an uncaught exception.
\<close>

definition exit_code :: "tetra3 \<Rightarrow> command \<Rightarrow> world \<Rightarrow> int" where
  "exit_code lib c w =
     (case fst (main lib c w) of
        Inr n \<Rightarrow> n
      | Inl (SystemExit n) \<Rightarrow> n
      | Inl e \<Rightarrow> 1)"

section \<open>What the claims speak of\<close>

text \<open>
  The extension whitelist of the specification, and what one argument of the solve
  command contributes to the image list (nothing when its \<^verbatim>\<open>expanduser\<close> fails).
\<close>

definition image_extensions :: "string list" where
  "image_extensions = [''.jpg'', ''.jpeg'', ''.png'', ''.tif'', ''.tiff'', ''.bmp'', ''.fits'']"

definition arg_images :: "world \<Rightarrow> path \<Rightarrow> path list" where
  "arg_images w p =
     (case expanduser w p of
        Inl e \<Rightarrow> []
      | Inr pth \<Rightarrow>
          if is_dir w pth then sort (concat (map (glob w pth) image_patterns)) else [pth])"

text \<open>
  For stating what the loop does: a solver answer is fatal when it raises something that
  is not an \<^verbatim>\<open>Exception\<close>; \<open>answers\<close> pairs each image with the answer to its
  call, \<open>processed\<close> are those before the first fatal one, and \<open>result_row\<close> is
  the CSV row of an answer.
\<close>

fun fatal :: "outcome \<Rightarrow> bool" where
  "fatal (Raises (PyException msg)) = False"
| "fatal (Raises e) = True"
| "fatal (Returns res) = False"

definition answers ::
  "tetra3 \<Rightarrow> real \<Rightarrow> real \<Rightarrow> (string \<times> pyval) list option \<Rightarrow> nat \<Rightarrow> path list
     \<Rightarrow> (path \<times> outcome) list" where
  "answers lib fe fme ed k imgs =
     map (\<lambda>(i, img). (img, solve_from_image lib i (path_str img) fe fme ed)) (enumerate k imgs)"

definition processed ::
  "tetra3 \<Rightarrow> real \<Rightarrow> real \<Rightarrow> (string \<times> pyval) list option \<Rightarrow> nat \<Rightarrow> path list
     \<Rightarrow> (path \<times> outcome) list" where
  "processed lib fe fme ed k imgs = takeWhile (\<lambda>(img, out). \<not> fatal out) (answers lib fe fme ed k imgs)"

fun result_row :: "path \<times> outcome \<Rightarrow> csv_row" where
  "result_row (img, Raises e) =
     [PyStr (path_str img), PyBool False, PyStr [], PyStr [], PyStr [], PyStr []]"
| "result_row (img, Returns res) =
     [PyStr (path_str img), PyBool (truthy (dict_get res ''success'' (PyBool False))),
      dict_get res ''ra_deg'' (PyStr []), dict_get res ''dec_deg'' (PyStr []),
      dict_get res ''rotation_deg'' (PyStr []), dict_get res ''fov_deg'' (PyStr [])]"

text \<open>
  The solver's part in one run of \<^verbatim>\<open>cmd_solve\<close>: the extraction argument handed to
  every call, the answer to call number \<open>i\<close>, and the answers the loop gets through.
\<close>

definition extract_arg :: "solve_args \<Rightarrow> (string \<times> pyval) list option" where
  "extract_arg a = (if parse_extract_dict a \<noteq> [] then Some (parse_extract_dict a) else None)"

definition solver_answer :: "tetra3 \<Rightarrow> solve_args \<Rightarrow> nat \<Rightarrow> path \<Rightarrow> outcome" where
  "solver_answer lib a i img =
     solve_from_image lib i (path_str img) (fov_estimate a) (fov_max_error a) (extract_arg a)"

definition run_processed :: "tetra3 \<Rightarrow> solve_args \<Rightarrow> path list \<Rightarrow> (path \<times> outcome) list" where
  "run_processed lib a imgs =
     processed lib (fov_estimate a) (fov_max_error a) (extract_arg a) 0 imgs"

text \<open>
  The events that are solve calls, the events that concern the working directory, and
  what it means that the external generator leaves a directory in place.
\<close>

fun is_solve_call :: "event \<Rightarrow> bool" where
  "is_solve_call (SolveCall k img) = True"
| "is_solve_call e = False"

fun cwd_event :: "event \<Rightarrow> bool" where
  "cwd_event (Chdir d) = True"
| "cwd_event (GenerateCall d mn mx cat mag out) = True"
| "cwd_event e = False"

definition keeps_directory :: "tetra3 \<Rightarrow> path \<Rightarrow> bool" where
  "keeps_directory lib d =
     (\<forall>tree dir mn mx cat mag out.
        map_of tree d = Some Dir \<longrightarrow>
        map_of (fst (snd (generate_database lib tree dir mn mx cat mag out))) d = Some Dir)"

section \<open>Example worlds\<close>

text \<open>
  A small machine for concrete runs: the working directory \<^verbatim>\<open>/work\<close>, a catalog
  directory \<^verbatim>\<open>/cat\<close>, a HIPPARCOS file in both, a database, a directory
  \<^verbatim>\<open>/work/pics\<close> with three images and a text file, an empty directory and an old
  CSV file.
\<close>

definition demo_world :: world where
  "demo_world =
     \<lparr>cwd = [''/'', ''work''],
      homes = (\<lambda>u. if u = [] then Some [''/'', ''home'', ''astro''] else None),
      fs = [([''/''], Dir),
            ([''/'', ''work''], Dir),
            ([''/'', ''cat''], Dir),
            ([''/'', ''cat'', ''hip_main.dat''], File []),
            ([''/'', ''work'', ''hip_main.dat''], File []),
            ([''/'', ''work'', ''db.npz''], File []),
            ([''/'', ''work'', ''pics''], Dir),
            ([''/'', ''work'', ''pics'', ''b.png''], File []),
            ([''/'', ''work'', ''pics'', ''a.jpg''], File []),
            ([''/'', ''work'', ''pics'', ''c.fits''], File []),
            ([''/'', ''work'', ''pics'', ''d.txt''], File []),
            ([''/'', ''work'', ''empty''], Dir),
            ([''/'', ''work'', ''old.csv''], File [[PyStr ''stale'']])],
      open_files = {},
      clock = ''2024-01-01T00:00:00'',
      trace = []\<rparr>"

text \<open>
  Four libraries: a solver whose second call raises an error and whose other calls
  succeed; one that is interrupted in its second call; one that finds no match and
  reports failure together with a right ascension; and a generator that raises and
  leaves the process in another directory.
\<close>

definition demo_lib :: tetra3 where
  "demo_lib =
     \<lparr>load_database = (\<lambda>db. None),
      solve_from_image = (\<lambda>k img fe fme ed.
         if k = 1 then Raises (PyException ''no stars found'')
         else Returns [''success'' \<mapsto> PyBool True, ''ra_deg'' \<mapsto> PyFloat 10,
                       ''dec_deg'' \<mapsto> PyFloat 20, ''rotation_deg'' \<mapsto> PyFloat 30,
                       ''fov_deg'' \<mapsto> PyFloat 35]),
      generate_database = (\<lambda>tree dir mn mx cat mag out. (None, tree, dir))\<rparr>"

definition demo_lib_interrupt :: tetra3 where
  "demo_lib_interrupt =
     demo_lib\<lparr>solve_from_image := (\<lambda>k img fe fme ed.
        if k = 1 then Raises KeyboardInterrupt
        else Returns [''success'' \<mapsto> PyBool True, ''ra_deg'' \<mapsto> PyFloat 10,
                      ''dec_deg'' \<mapsto> PyFloat 20, ''rotation_deg'' \<mapsto> PyFloat 30,
                      ''fov_deg'' \<mapsto> PyFloat 35])\<rparr>"

definition demo_lib_nomatch :: tetra3 where
  "demo_lib_nomatch =
     demo_lib\<lparr>solve_from_image := (\<lambda>k img fe fme ed.
        Returns [''success'' \<mapsto> PyBool False, ''ra_deg'' \<mapsto> PyFloat (3 / 2)])\<rparr>"

definition demo_lib_failing :: tetra3 where
  "demo_lib_failing =
     demo_lib\<lparr>generate_database := (\<lambda>tree dir mn mx cat mag out.
        (Some (PyException ''catalog unreadable''), tree, [''/'', ''tmp'']))\<rparr>"

text \<open>
  A solve command on the example directory with CSV logging, and a generate-db command
  with a catalog directory.
\<close>

definition demo_args :: solve_args where
  "demo_args =
     \<lparr>images = [[''pics'']], database = [''db.npz''], fov_estimate = 35, fov_max_error = 3 / 2,
      min_sum = Some 500, max_axis_ratio = Some (3 / 2), min_distance = Some 4,
      csv = Some [''out'', ''old.csv'']\<rparr>"

definition demo_gen_args :: gen_args where
  "demo_gen_args =
     \<lparr>star_catalog = ''hip_main'', catalog_dir = Some [''/'', ''cat''], min_fov = 30,
      max_fov = 36, star_max_magnitude = 8, out_file = [''db.npz'']\<rparr>"


section \<open>What the effects leave alone\<close>

lemma emit_fields [simp]:
  "cwd (emit e w) = cwd w" "homes (emit e w) = homes w" "fs (emit e w) = fs w"
  "open_files (emit e w) = open_files w" "clock (emit e w) = clock w"
  "trace (emit e w) = trace w @ [e]"
  by (simp_all add: emit_def)

lemma print_fields [simp]:
  "cwd (print l w) = cwd w" "homes (print l w) = homes w" "fs (print l w) = fs w"
  "open_files (print l w) = open_files w" "clock (print l w) = clock w"
  "trace (print l w) = trace w @ [Print l]"
  by (simp_all add: print_def)

lemma resolve_emit [simp]:
  "resolve (emit e w) p = resolve w p" "resolve (print l w) p = resolve w p"
  by (simp_all add: resolve_def)

lemma lookup_emit [simp]:
  "lookup (emit e w) p = lookup w p" "lookup (print l w) p = lookup w p"
  by (simp_all add: lookup_def)

lemma path_exists_emit [simp]:
  "path_exists (emit e w) p = path_exists w p" "path_exists (print l w) p = path_exists w p"
  by (simp_all add: path_exists_def)

section \<open>Catalog check\<close>

lemma probe_dirs_found:
  "fst (probe_dirs w ds f) = (\<exists>d \<in> set ds. path_exists w (joinpath d f))"
  by (induction ds arbitrary: w) (simp_all add: Let_def)

lemma probe_dirs_miss:
  "\<forall>d \<in> set ds. \<not> path_exists w (joinpath d f) \<Longrightarrow>
   probe_dirs w ds f = (False, w\<lparr>trace := trace w @ map (\<lambda>d. Probe (joinpath d f)) ds\<rparr>)"
proof (induction ds arbitrary: w)
  case Nil
  then show ?case by simp
next
  case (Cons d ds)
  have "probe_dirs (emit (Probe (joinpath d f)) w) ds f =
          (False, (emit (Probe (joinpath d f)) w)
             \<lparr>trace := trace (emit (Probe (joinpath d f)) w) @ map (\<lambda>d. Probe (joinpath d f)) ds\<rparr>)"
    using Cons.prems by (intro Cons.IH) simp
  then show ?case
    using Cons.prems by (simp add: Let_def)
qed

lemma probe_dirs_hit:
  "path_exists w (joinpath d f) \<Longrightarrow>
   probe_dirs w (d # ds) f = (True, w\<lparr>trace := trace w @ [Probe (joinpath d f)]\<rparr>)"
  by (simp add: Let_def emit_def)

lemma required_names:
  "name \<in> {''hip_main'', ''tyc_main'', ''bsc5''} \<Longrightarrow> map_of required name = Some (name @ ''.dat'')"
  by (auto simp add: required_def)

lemma ensure_supported:
  assumes "map_of required name = Some f"
  shows "ensure_catalog_available name cdir w =
     (case probe_dirs w (search_dirs cdir w) f of
        (True, w1) \<Rightarrow> (None, w1)
      | (False, w1) \<Rightarrow>
          (Some (SystemExit 3),
           (if name = ''hip_main'' then
              print [S ''  https://cdsarc.cds.unistra.fr/ftp/cats/I/239/hip_main.dat'']
            else if name = ''bsc5'' then
              print [S ''  http://tdc-www.harvard.edu/catalogs/bsc5.html'']
            else print [S ''Ensure you have the correct Tycho-2 main file and rename it to '',
                        S [CHR 0x27], S ''tyc_main.dat'', S [CHR 0x27], S ''.''])
           ((if name = ''hip_main'' then
              print [S ''Download HIPPARCOS '', S [CHR 0x27], S ''hip_main.dat'',
                     S [CHR 0x27], S '' from:'']
            else if name = ''bsc5'' then print [S ''Download the BSC5 byte-format file from:'']
            else id)
             (print [S ''ERROR: Required catalog file '', S [CHR 0x27], S f,
                     S [CHR 0x27], S '' not found in '', S [CHR 0x27],
                     S (case cdir of Some d \<Rightarrow> path_str d | None \<Rightarrow> path_str (cwd w1)),
                     S [CHR 0x27], S '' or current directory.''] w1))))"
proof -
  show ?thesis
    unfolding ensure_catalog_available_def assms option.case Let_def
    by (cases "probe_dirs w (search_dirs cdir w) f") simp
qed


lemma catalog_missing:
  assumes n: "name \<in> {''hip_main'', ''tyc_main'', ''bsc5''}"
    and miss: "\<forall>dir \<in> set (search_dirs cdir w). \<not> path_exists w (joinpath dir (name @ ''.dat''))"
  shows "fst (ensure_catalog_available name cdir w) = Some (SystemExit 3)"
    and "\<exists>msg. trace (snd (ensure_catalog_available name cdir w)) =
         trace w @ map (\<lambda>dir. Probe (joinpath dir (name @ ''.dat''))) (search_dirs cdir w) @
         map Print msg @
         [Print (if name = ''hip_main'' then
                   [S ''  https://cdsarc.cds.unistra.fr/ftp/cats/I/239/hip_main.dat'']
                 else if name = ''bsc5'' then
                   [S ''  http://tdc-www.harvard.edu/catalogs/bsc5.html'']
                 else [S ''Ensure you have the correct Tycho-2 main file and rename it to '',
                       S [CHR 0x27], S ''tyc_main.dat'', S [CHR 0x27], S ''.''])]"
proof -
  note e = ensure_supported [OF required_names [OF n], of cdir w]
  note p = probe_dirs_miss [OF miss]
  show "fst (ensure_catalog_available name cdir w) = Some (SystemExit 3)"
    by (simp add: e p)
  consider "name = ''hip_main''" | "name = ''bsc5''" | "name = ''tyc_main''"
    using n by auto
  then show "\<exists>msg. trace (snd (ensure_catalog_available name cdir w)) =
         trace w @ map (\<lambda>dir. Probe (joinpath dir (name @ ''.dat''))) (search_dirs cdir w) @
         map Print msg @
         [Print (if name = ''hip_main'' then
                   [S ''  https://cdsarc.cds.unistra.fr/ftp/cats/I/239/hip_main.dat'']
                 else if name = ''bsc5'' then
                   [S ''  http://tdc-www.harvard.edu/catalogs/bsc5.html'']
                 else [S ''Ensure you have the correct Tycho-2 main file and rename it to '',
                       S [CHR 0x27], S ''tyc_main.dat'', S [CHR 0x27], S ''.''])]"
  proof cases
    case 1
    show ?thesis
      unfolding e p
      by (rule exI [of _ "[[S ''ERROR: Required catalog file '', S [CHR 0x27], S (name @ ''.dat''),
                     S [CHR 0x27], S '' not found in '', S [CHR 0x27],
                     S (case cdir of Some d \<Rightarrow> path_str d | None \<Rightarrow> path_str (cwd w)),
                     S [CHR 0x27], S '' or current directory.''],
                     [S ''Download HIPPARCOS '', S [CHR 0x27], S ''hip_main.dat'',
                     S [CHR 0x27], S '' from:'']]"]) (simp add: 1 split: option.splits)
  next
    case 2
    show ?thesis
      unfolding e p
      by (rule exI [of _ "[[S ''ERROR: Required catalog file '', S [CHR 0x27], S (name @ ''.dat''),
                     S [CHR 0x27], S '' not found in '', S [CHR 0x27],
                     S (case cdir of Some d \<Rightarrow> path_str d | None \<Rightarrow> path_str (cwd w)),
                     S [CHR 0x27], S '' or current directory.''],
                     [S ''Download the BSC5 byte-format file from:'']]"]) (simp add: 2 split: option.splits)
  next
    case 3
    show ?thesis
      unfolding e p
      by (rule exI [of _ "[[S ''ERROR: Required catalog file '', S [CHR 0x27], S (name @ ''.dat''),
                     S [CHR 0x27], S '' not found in '', S [CHR 0x27],
                     S (case cdir of Some d \<Rightarrow> path_str d | None \<Rightarrow> path_str (cwd w)),
                     S [CHR 0x27], S '' or current directory.'']]"]) (simp add: 3 split: option.splits)
  qed
qed

text \<open>
  C4. For each of the three supported catalogs the file \<open>name.dat\<close> is looked for in
  the catalog directory first (when one is given) and in the current directory second,
  and the check returns at the first directory that has it: with the file in the catalog
  directory, that probe is the only one, whatever the current directory holds. When no
  searched directory has the file, every directory is probed in that order, the check
  exits with code 3, and the last line printed is the hint of that catalog: a download
  address for \<^verbatim>\<open>hip_main\<close> and \<^verbatim>\<open>bsc5\<close>, the renaming instruction for
  \<^verbatim>\<open>tyc_main\<close>.
\<close>

theorem catalog_search_order:
  assumes "name \<in> {''hip_main'', ''tyc_main'', ''bsc5''}"
  shows
  "(path_exists w (joinpath d (name @ ''.dat'')) \<longrightarrow>
      ensure_catalog_available name (Some d) w =
        (None, w\<lparr>trace := trace w @ [Probe (joinpath d (name @ ''.dat''))]\<rparr>)) \<and>
   (\<not> path_exists w (joinpath d (name @ ''.dat'')) \<and>
    path_exists w (joinpath (cwd w) (name @ ''.dat'')) \<longrightarrow>
      ensure_catalog_available name (Some d) w =
        (None, w\<lparr>trace := trace w @ [Probe (joinpath d (name @ ''.dat'')),
                                      Probe (joinpath (cwd w) (name @ ''.dat''))]\<rparr>)) \<and>
   (path_exists w (joinpath (cwd w) (name @ ''.dat'')) \<longrightarrow>
      ensure_catalog_available name None w =
        (None, w\<lparr>trace := trace w @ [Probe (joinpath (cwd w) (name @ ''.dat''))]\<rparr>)) \<and>
   ((\<forall>dir \<in> set (search_dirs cdir w). \<not> path_exists w (joinpath dir (name @ ''.dat''))) \<longrightarrow>
      fst (ensure_catalog_available name cdir w) = Some (SystemExit 3) \<and>
      (\<exists>msg. trace (snd (ensure_catalog_available name cdir w)) =
         trace w @ map (\<lambda>dir. Probe (joinpath dir (name @ ''.dat''))) (search_dirs cdir w) @
         map Print msg @
         [Print (if name = ''hip_main'' then
                   [S ''  https://cdsarc.cds.unistra.fr/ftp/cats/I/239/hip_main.dat'']
                 else if name = ''bsc5'' then
                   [S ''  http://tdc-www.harvard.edu/catalogs/bsc5.html'']
                 else [S ''Ensure you have the correct Tycho-2 main file and rename it to '',
                       S [CHR 0x27], S ''tyc_main.dat'', S [CHR 0x27], S ''.''])]))"
proof -
  note f = required_names [OF assms]
  have a: "path_exists w (joinpath d (name @ ''.dat'')) \<Longrightarrow>
      ensure_catalog_available name (Some d) w =
        (None, w\<lparr>trace := trace w @ [Probe (joinpath d (name @ ''.dat''))]\<rparr>)"
    by (simp add: ensure_supported [OF f] search_dirs_def probe_dirs_hit del: probe_dirs.simps)
  have b: "\<not> path_exists w (joinpath d (name @ ''.dat'')) \<Longrightarrow>
    path_exists w (joinpath (cwd w) (name @ ''.dat'')) \<Longrightarrow>
      ensure_catalog_available name (Some d) w =
        (None, w\<lparr>trace := trace w @ [Probe (joinpath d (name @ ''.dat'')),
                                      Probe (joinpath (cwd w) (name @ ''.dat''))]\<rparr>)"
    by (simp add: ensure_supported [OF f] search_dirs_def Let_def)
  have c: "path_exists w (joinpath (cwd w) (name @ ''.dat'')) \<Longrightarrow>
      ensure_catalog_available name None w =
        (None, w\<lparr>trace := trace w @ [Probe (joinpath (cwd w) (name @ ''.dat''))]\<rparr>)"
    by (simp add: ensure_supported [OF f] search_dirs_def probe_dirs_hit del: probe_dirs.simps)
  from a b c catalog_missing [OF assms, of cdir w] show ?thesis
    by blast
qed


lemma demo_exists:
  "path_exists demo_world [''/'', ''cat'', ''hip_main.dat'']"
  "path_exists demo_world [''/'', ''work'', ''hip_main.dat'']"
  "\<not> path_exists demo_world [''/'', ''cat'', ''bsc5.dat'']"
  "\<not> path_exists demo_world [''/'', ''work'', ''bsc5.dat'']"
  by (simp_all add: demo_world_def path_exists_def lookup_def resolve_def is_absolute_def)

theorem catalog_search_order_witness:
  "ensure_catalog_available ''hip_main'' (Some [''/'', ''cat'']) demo_world =
     (None, demo_world\<lparr>trace := trace demo_world @ [Probe [''/'', ''cat'', ''hip_main.dat'']]\<rparr>) \<and>
   fst (ensure_catalog_available ''bsc5'' (Some [''/'', ''cat'']) demo_world) = Some (SystemExit 3) \<and>
   last (trace (snd (ensure_catalog_available ''bsc5'' (Some [''/'', ''cat'']) demo_world))) =
     Print [S ''  http://tdc-www.harvard.edu/catalogs/bsc5.html'']"
proof -
  have c: "cwd demo_world = [''/'', ''work'']"
    by (simp add: demo_world_def)
  have a: "ensure_catalog_available ''hip_main'' (Some [''/'', ''cat'']) demo_world =
     (None, demo_world\<lparr>trace := trace demo_world @ [Probe [''/'', ''cat'', ''hip_main.dat'']]\<rparr>)"
    using catalog_search_order [of "''hip_main''" demo_world "[''/'', ''cat'']" None] demo_exists
    by (simp add: joinpath_def)
  have b: "fst (ensure_catalog_available ''bsc5'' (Some [''/'', ''cat'']) demo_world) = Some (SystemExit 3) \<and>
   last (trace (snd (ensure_catalog_available ''bsc5'' (Some [''/'', ''cat'']) demo_world))) =
     Print [S ''  http://tdc-www.harvard.edu/catalogs/bsc5.html'']"
    using catalog_search_order [of "''bsc5''" demo_world "[]" "Some [''/'', ''cat'']"] demo_exists
    by (auto simp add: joinpath_def search_dirs_def c)
  from a b show ?thesis by simp
qed

text \<open>
  C5. A catalog name other than \<^verbatim>\<open>hip_main\<close>, \<^verbatim>\<open>tyc_main\<close> and \<^verbatim>\<open>bsc5\<close> makes the
  check exit with code 2 after one printed line that lists the three valid names; nothing
  else happens, so no path is probed. Code 2 is this failure's own: a supported name ends
  in success or in code 3.
\<close>

theorem unsupported_catalog_rejected:
  "(name \<notin> {''hip_main'', ''tyc_main'', ''bsc5''} \<longrightarrow>
      ensure_catalog_available name cdir w =
        (Some (SystemExit 2),
         w\<lparr>trace := trace w @
            [Print [S ''ERROR: Unsupported star_catalog '', S [CHR 0x27], S name, S [CHR 0x27],
                    S ''. Use one of: '', S ''hip_main, tyc_main, bsc5'']]\<rparr>)) \<and>
   (name \<in> {''hip_main'', ''tyc_main'', ''bsc5''} \<longrightarrow>
      fst (ensure_catalog_available name cdir w) \<in> {None, Some (SystemExit 3)})"
proof (intro conjI impI)
  assume "name \<notin> {''hip_main'', ''tyc_main'', ''bsc5''}"
  then have "map_of required name = None"
    by (simp add: required_def)
  then show "ensure_catalog_available name cdir w =
        (Some (SystemExit 2),
         w\<lparr>trace := trace w @
            [Print [S ''ERROR: Unsupported star_catalog '', S [CHR 0x27], S name, S [CHR 0x27],
                    S ''. Use one of: '', S ''hip_main, tyc_main, bsc5'']]\<rparr>)"
    by (simp add: ensure_catalog_available_def) (simp add: required_def print_def emit_def)
next
  assume "name \<in> {''hip_main'', ''tyc_main'', ''bsc5''}"
  then have "map_of required name = Some (name @ ''.dat'')"
    by (rule required_names)
  then show "fst (ensure_catalog_available name cdir w) \<in> {None, Some (SystemExit 3)}"
    by (simp add: ensure_supported split: prod.splits bool.splits)
qed

theorem unsupported_catalog_rejected_witness:
  "''gaia'' \<notin> {''hip_main'', ''tyc_main'', ''bsc5''} \<and>
   ensure_catalog_available ''gaia'' (Some [''/'', ''cat'']) demo_world =
     (Some (SystemExit 2),
      demo_world\<lparr>trace := trace demo_world @
         [Print [S ''ERROR: Unsupported star_catalog '', S [CHR 0x27], S ''gaia'', S [CHR 0x27],
                 S ''. Use one of: '', S ''hip_main, tyc_main, bsc5'']]\<rparr>) \<and>
   fst (ensure_catalog_available ''hip_main'' (Some [''/'', ''cat'']) demo_world)
     \<in> {None, Some (SystemExit 3)}"
  using unsupported_catalog_rejected [of "''gaia''" "Some [''/'', ''cat'']" demo_world]
    unsupported_catalog_rejected [of "''hip_main''" "Some [''/'', ''cat'']" demo_world]
  by simp

section \<open>Image-set expansion\<close>

lemma patterns_extensions: "image_patterns = map ((#) CHR ''*'') image_extensions"
  by (simp add: image_patterns_def image_extensions_def)

lemma fnmatch_star [simp]: "fnmatch name (CHR ''*'' # lit) = suffix lit name"
  by (simp add: fnmatch_def)

lemma extensions_apart:
  "\<forall>a \<in> set image_extensions. \<forall>b \<in> set image_extensions. suffix a b \<longrightarrow> a = b"
  by (simp add: image_extensions_def suffix_to_prefix)

lemma extensions_distinct: "distinct image_extensions"
  by (simp add: image_extensions_def)

lemma one_extension:
  assumes "a \<in> set image_extensions" "b \<in> set image_extensions" "suffix a n" "suffix b n"
  shows "a = b"
proof -
  from assms(3,4) have "suffix a b \<or> suffix b a"
    by (rule suffix_same_cases)
  with assms(1,2) extensions_apart show ?thesis by blast
qed

lemma mset_filters_apart:
  assumes "distinct ps"
    and "\<And>p q x. p \<in> set ps \<Longrightarrow> q \<in> set ps \<Longrightarrow> P p x \<Longrightarrow> P q x \<Longrightarrow> p = q"
  shows "mset (concat (map (\<lambda>p. filter (P p) xs) ps)) = mset (filter (\<lambda>x. \<exists>p \<in> set ps. P p x) xs)"
  using assms
proof (induction ps)
  case Nil
  then show ?case by simp
next
  case (Cons p ps)
  have ih: "mset (concat (map (\<lambda>p. filter (P p) xs) ps)) = mset (filter (\<lambda>x. \<exists>p \<in> set ps. P p x) xs)"
    using Cons.prems by (intro Cons.IH) auto
  have apart: "\<not> (P p x \<and> (\<exists>q \<in> set ps. P q x))" for x
    using Cons.prems by (metis distinct.simps(2) list.set_intros(1) list.set_intros(2))
  have "mset (filter (P p) xs) + mset (filter (\<lambda>x. \<exists>p \<in> set ps. P p x) xs) =
          mset (filter (\<lambda>x. \<exists>q \<in> set (p # ps). P q x) xs)"
    using apart by (induction xs) auto
  with ih show ?case by simp
qed

lemma dir_matches:
  "mset (concat (map (glob w pth) image_patterns)) =
   mset (map (joinpath pth) (filter (\<lambda>n. \<exists>ext \<in> set image_extensions. suffix ext n) (entries w pth)))"
proof -
  have "concat (map (glob w pth) image_patterns) =
          map (joinpath pth) (concat (map (\<lambda>ext. filter (\<lambda>n. suffix ext n) (entries w pth)) image_extensions))"
    by (simp add: patterns_extensions glob_def map_concat comp_def)
  moreover have "mset (concat (map (\<lambda>ext. filter (\<lambda>n. suffix ext n) (entries w pth)) image_extensions)) =
          mset (filter (\<lambda>n. \<exists>ext \<in> set image_extensions. suffix ext n) (entries w pth))"
    by (rule mset_filters_apart [OF extensions_distinct]) (rule one_extension)
  ultimately show ?thesis
    by (metis mset_map)
qed

lemma distinct_entries: "distinct (entries w d)"
  by (simp add: entries_def)

lemma inj_joinpath: "inj_on (joinpath d) A"
  by (simp add: inj_on_def joinpath_def)

lemma dir_images:
  "sort (concat (map (glob w pth) image_patterns)) =
   sort (map (joinpath pth) (filter (\<lambda>n. \<exists>ext \<in> set image_extensions. suffix ext n) (entries w pth)))"
  by (rule properties_for_sort) (simp_all add: dir_matches)

lemma distinct_dir_matches: "distinct (concat (map (glob w pth) image_patterns))"
proof -
  have "distinct (sort (concat (map (glob w pth) image_patterns)))"
    unfolding dir_images
    by (simp add: distinct_map distinct_entries inj_joinpath)
  then show ?thesis by simp
qed

lemma expand_images_acc:
  "expand_images w acc ps = (case expand_images w [] ps of Inl e \<Rightarrow> Inl e | Inr r \<Rightarrow> Inr (acc @ r))"
proof (induction ps arbitrary: acc)
  case Nil
  then show ?case by simp
next
  case (Cons p ps)
  show ?case
  proof (cases "expanduser w p")
    case (Inl e)
    then show ?thesis by simp
  next
    case (Inr pth)
    show ?thesis
      using Cons.IH [of "acc @ sort (concat (map (glob w pth) image_patterns))"]
        Cons.IH [of "sort (concat (map (glob w pth) image_patterns))"]
        Cons.IH [of "acc @ [pth]"] Cons.IH [of "[pth]"]
      by (simp add: Inr split: sum.splits)
  qed
qed

lemma expand_images_concat:
  "expand_images w [] ps = Inr r \<Longrightarrow> r = concat (map (arg_images w) ps)"
proof (induction ps arbitrary: r)
  case Nil
  then show ?case by simp
next
  case (Cons p ps)
  from Cons.prems obtain pth where e: "expanduser w p = Inr pth"
    by (cases "expanduser w p") simp_all
  from Cons.prems e have "expand_images w (arg_images w p) ps = Inr r"
    by (simp add: arg_images_def split: if_splits)
  then obtain r' where r': "expand_images w [] ps = Inr r'" "r = arg_images w p @ r'"
    by (subst (asm) expand_images_acc) (auto split: sum.splits)
  with Cons.IH show ?case by simp
qed

lemma distinct_arg_images: "distinct (arg_images w p)"
  by (simp add: arg_images_def distinct_dir_matches split: sum.splits)

lemma count_concat:
  "\<forall>xs \<in> set xss. distinct xs \<Longrightarrow>
   count (mset (concat xss)) x = length (filter (\<lambda>xs. x \<in> set xs) xss)"
  by (induction xss) (auto simp add: count_mset distinct_count_atmost_1)

lemma demo_pics_a:
  "expand_images demo_world [] [[''pics'']] =
     Inr [[''pics'', ''a.jpg''], [''pics'', ''b.png''], [''pics'', ''c.fits'']]"
  by code_simp

lemma demo_pics_b:
  "expand_images demo_world [] [[''pics''], [''pics'', ''a.jpg'']] =
     Inr [[''pics'', ''a.jpg''], [''pics'', ''b.png''], [''pics'', ''c.fits''], [''pics'', ''a.jpg'']]"
  by code_simp

lemma demo_pics_c:
  "expanduser demo_world [''pics''] = Inr [''pics'']" "is_dir demo_world [''pics'']"
  "entries demo_world [''pics''] = [''b.png'', ''a.jpg'', ''c.fits'', ''d.txt'']"
  "entries demo_world [''empty''] = []" "is_dir demo_world [''empty'']"
  by (simp_all add: demo_world_def expanduser_def is_dir_def lookup_def resolve_def is_absolute_def entries_def)

lemma same_view:
  assumes "cwd w' = cwd w" "homes w' = homes w" "fs w' = fs w"
  shows "resolve w' = resolve w" "lookup w' = lookup w" "path_exists w' = path_exists w"
    "is_dir w' = is_dir w" "expanduser w' = expanduser w" "entries w' = entries w"
    "glob w' = glob w" "expand_images w' = expand_images w"
proof -
  show r: "resolve w' = resolve w"
    using assms by (simp add: fun_eq_iff resolve_def)
  show l: "lookup w' = lookup w"
    using assms r by (simp add: fun_eq_iff lookup_def)
  show "path_exists w' = path_exists w"
    using l by (simp add: fun_eq_iff path_exists_def)
  show d: "is_dir w' = is_dir w"
    using l by (simp add: fun_eq_iff is_dir_def)
  have "expanduser w' p = expanduser w p" for p
    unfolding expanduser_def assms(2) by (rule refl)
  then show u: "expanduser w' = expanduser w"
    by (rule ext)
  show e: "entries w' = entries w"
    using assms r by (simp add: fun_eq_iff entries_def)
  show g: "glob w' = glob w"
    using e by (simp add: fun_eq_iff glob_def)
  have "expand_images w' acc ps = expand_images w acc ps" for acc ps
    by (induction ps arbitrary: acc) (simp_all add: u d g split: sum.splits)
  then show "expand_images w' = expand_images w"
    by (simp add: fun_eq_iff)
qed

lemma view_emit [simp]:
  "is_dir (emit e w) = is_dir w" "expanduser (emit e w) = expanduser w"
  "expand_images (emit e w) = expand_images w"
  "is_dir (print l w) = is_dir w" "expanduser (print l w) = expanduser w"
  "expand_images (print l w) = expand_images w"
proof -
  note a = same_view [of "emit e w" w, simplified]
  note b = same_view [of "print l w" w, simplified]
  show "is_dir (emit e w) = is_dir w" "expanduser (emit e w) = expanduser w"
    "expand_images (emit e w) = expand_images w"
    by (rule a)+
  show "is_dir (print l w) = is_dir w" "expanduser (print l w) = expanduser w"
    "expand_images (print l w) = expand_images w"
    by (rule b)+
qed

text \<open>
  C8. When the run reaches the expansion (the database file exists) and the expanded
  image list is empty, \<^verbatim>\<open>cmd_solve\<close> prints the no-images error and exits with code
  5, which is also the exit status of the process; the only events of the run are the
  probe of the database path and that line, so no database is loaded. An empty directory
  as the sole argument is such a case.
\<close>

theorem no_images_exit:
  assumes "expanduser w (database a) = Inr dp"
    and "path_exists w (resolve w dp)"
    and "expand_images w [] (images a) = Inr []"
  shows "cmd_solve lib a w =
           (Some (SystemExit 5),
            w\<lparr>trace := trace w @ [Probe (resolve w dp), Print [S ''ERROR: No images to solve.'']]\<rparr>) \<and>
         exit_code lib (Solve a) w = 5"
proof -
  have p: "solve_prelude lib a w =
             (Inl (SystemExit 5), print [S ''ERROR: No images to solve.''] (emit (Probe (resolve w dp)) w))"
    using assms by (simp add: solve_prelude_def Let_def)
  then have c: "cmd_solve lib a w =
           (Some (SystemExit 5),
            w\<lparr>trace := trace w @ [Probe (resolve w dp), Print [S ''ERROR: No images to solve.'']]\<rparr>)"
    by (simp add: cmd_solve_def print_def emit_def)
  then have "exit_code lib (Solve a) w = 5"
    by (simp add: exit_code_def main_def)
  with c show ?thesis by simp
qed

theorem no_images_exit_witness:
  "expand_images demo_world [] [[''empty'']] = Inr [] \<and>
   cmd_solve demo_lib (demo_args\<lparr>images := [[''empty'']]\<rparr>) demo_world =
     (Some (SystemExit 5),
      demo_world\<lparr>trace := [Probe [''/'', ''work'', ''db.npz''], Print [S ''ERROR: No images to solve.'']]\<rparr>) \<and>
   exit_code demo_lib (Solve (demo_args\<lparr>images := [[''empty'']]\<rparr>)) demo_world = 5"
proof -
  have e: "expand_images demo_world [] [[''empty'']] = Inr []"
    by code_simp
  have d: "expanduser demo_world [''db.npz''] = Inr [''db.npz'']"
    "resolve demo_world [''db.npz''] = [''/'', ''work'', ''db.npz'']"
    "path_exists demo_world [''/'', ''work'', ''db.npz'']"
    "trace demo_world = []"
    by (simp_all add: demo_world_def expanduser_def resolve_def is_absolute_def path_exists_def lookup_def)
  have h1: "expanduser demo_world (database (demo_args\<lparr>images := [[''empty'']]\<rparr>)) = Inr [''db.npz'']"
    by (simp add: demo_args_def d)
  have h2: "path_exists demo_world (resolve demo_world [''db.npz''])"
    by (simp add: d)
  have h3: "expand_images demo_world [] (images (demo_args\<lparr>images := [[''empty'']]\<rparr>)) = Inr []"
    using e by (simp del: expand_images.simps)
  show ?thesis
    using no_images_exit [OF h1 h2 h3, of demo_lib] e
    by (simp add: d del: expand_images.simps)
qed

text \<open>
  C6. A directory argument appends to the image list a segment that is sorted, holds no
  path twice, and consists of exactly the entries of that directory whose names end in
  one of the seven whitelisted extensions. For a directory with \<^verbatim>\<open>b.png\<close>,
  \<^verbatim>\<open>a.jpg\<close>, \<^verbatim>\<open>c.fits\<close> and \<^verbatim>\<open>d.txt\<close> the result is
  \<^verbatim>\<open>a.jpg\<close>, \<^verbatim>\<open>b.png\<close>, \<^verbatim>\<open>c.fits\<close>.
\<close>

theorem directory_expansion:
  assumes "expanduser w p = Inr pth" and "is_dir w pth"
  shows "\<exists>seg. expand_images w acc (p # ps) = expand_images w (acc @ seg) ps \<and>
           sorted seg \<and> distinct seg \<and>
           set seg = {joinpath pth n | n.
                        n \<in> set (entries w pth) \<and> (\<exists>ext \<in> set image_extensions. suffix ext n)}"
proof (intro exI conjI)
  let ?seg = "sort (concat (map (glob w pth) image_patterns))"
  show "expand_images w acc (p # ps) = expand_images w (acc @ ?seg) ps"
    using assms by simp
  show "sorted ?seg"
    by simp
  show "distinct ?seg"
    by (simp add: distinct_dir_matches)
  have "set ?seg = set (sort (map (joinpath pth)
          (filter (\<lambda>n. \<exists>ext \<in> set image_extensions. suffix ext n) (entries w pth))))"
    by (simp only: dir_images)
  then show "set ?seg = {joinpath pth n | n.
                 n \<in> set (entries w pth) \<and> (\<exists>ext \<in> set image_extensions. suffix ext n)}"
    by auto
qed

theorem directory_expansion_witness:
  "expanduser demo_world [''pics''] = Inr [''pics''] \<and> is_dir demo_world [''pics''] \<and>
   entries demo_world [''pics''] = [''b.png'', ''a.jpg'', ''c.fits'', ''d.txt''] \<and>
   expand_images demo_world [] [[''pics'']] =
     Inr [[''pics'', ''a.jpg''], [''pics'', ''b.png''], [''pics'', ''c.fits'']] \<and>
   set [[''pics'', ''a.jpg''], [''pics'', ''b.png''], [''pics'', ''c.fits'']] =
     {joinpath [''pics''] n | n.
        n \<in> set (entries demo_world [''pics'']) \<and> (\<exists>ext \<in> set image_extensions. suffix ext n)}"
proof -
  have h: "expanduser demo_world [''pics''] = Inr [''pics'']" "is_dir demo_world [''pics'']"
    "entries demo_world [''pics''] = [''b.png'', ''a.jpg'', ''c.fits'', ''d.txt'']"
    by (simp_all add: demo_world_def expanduser_def is_dir_def lookup_def resolve_def
        is_absolute_def entries_def)
  have v: "expand_images demo_world [] [[''pics'']] =
     Inr [[''pics'', ''a.jpg''], [''pics'', ''b.png''], [''pics'', ''c.fits'']]"
    by code_simp
  from directory_expansion [OF h(1,2), of "[]" "[]"] obtain seg where
    s: "expand_images demo_world [] [[''pics'']] = expand_images demo_world ([] @ seg) []"
      "set seg = {joinpath [''pics''] n | n.
        n \<in> set (entries demo_world [''pics'']) \<and> (\<exists>ext \<in> set image_extensions. suffix ext n)}"
    by blast
  from s(1) v have "seg = [[''pics'', ''a.jpg''], [''pics'', ''b.png''], [''pics'', ''c.fits'']]"
    by simp
  with s(2) h v show ?thesis
    by (simp del: expand_images.simps)
qed

text \<open>
  C7 as stated fails: a directory and a file inside it, given as two arguments, put the
  file into the expanded sequence twice.
\<close>

theorem expansion_not_deduplicated_counterexample:
  "expand_images demo_world [] [[''pics''], [''pics'', ''a.jpg'']] =
     Inr [[''pics'', ''a.jpg''], [''pics'', ''b.png''], [''pics'', ''c.fits''], [''pics'', ''a.jpg'']] \<and>
   \<not> distinct [[''pics'', ''a.jpg''], [''pics'', ''b.png''], [''pics'', ''c.fits''],
                [''pics'', ''a.jpg'']]"
  by code_simp

text \<open>
  C7, amended. The expanded sequence is the concatenation, in argument order, of what
  each argument contributes; one argument never contributes a path twice, and a path
  occurs in the sequence once for every argument that contributes it.
\<close>

theorem expansion_keeps_duplicates:
  assumes "expand_images w [] ps = Inr r"
  shows "r = concat (map (arg_images w) ps) \<and>
         (\<forall>p \<in> set ps. distinct (arg_images w p)) \<and>
         (\<forall>x. count (mset r) x = length (filter (\<lambda>p. x \<in> set (arg_images w p)) ps))"
proof -
  have r: "r = concat (map (arg_images w) ps)"
    using assms by (rule expand_images_concat)
  have "count (mset r) x = length (filter (\<lambda>p. x \<in> set (arg_images w p)) ps)" for x
    unfolding r
    by (subst count_concat) (simp_all add: distinct_arg_images filter_map comp_def)
  with r show ?thesis
    by (simp add: distinct_arg_images)
qed

theorem expansion_keeps_duplicates_witness:
  "expand_images demo_world [] [[''pics''], [''pics'', ''a.jpg'']] =
     Inr [[''pics'', ''a.jpg''], [''pics'', ''b.png''], [''pics'', ''c.fits''], [''pics'', ''a.jpg'']] \<and>
   length (filter (\<lambda>p. [''pics'', ''a.jpg''] \<in> set (arg_images demo_world p))
             [[''pics''], [''pics'', ''a.jpg'']]) = 2"
proof -
  have v: "expand_images demo_world [] [[''pics''], [''pics'', ''a.jpg'']] =
     Inr [[''pics'', ''a.jpg''], [''pics'', ''b.png''], [''pics'', ''c.fits''], [''pics'', ''a.jpg'']]"
    by code_simp
  from expansion_keeps_duplicates [OF v]
  have "count (mset [[''pics'', ''a.jpg''], [''pics'', ''b.png''], [''pics'', ''c.fits''],
                     [''pics'', ''a.jpg'']]) [''pics'', ''a.jpg''] =
        length (filter (\<lambda>p. [''pics'', ''a.jpg''] \<in> set (arg_images demo_world p))
             [[''pics''], [''pics'', ''a.jpg'']])"
    by blast
  with v show ?thesis
    by (simp del: expand_images.simps)
qed

section \<open>The CSV file and the solve loop\<close>

lemma writerow_fields [simp]:
  "cwd (writerow w c row) = cwd w" "homes (writerow w c row) = homes w"
  "open_files (writerow w c row) = open_files w" "clock (writerow w c row) = clock w"
  "trace (writerow w c row) = trace w"
  by (simp_all add: writerow_def split: option.splits node.splits)

lemma resolve_writerow [simp]: "resolve (writerow w c row) p = resolve w p"
  by (simp add: resolve_def)

lemma lookup_writerow:
  "lookup w c = Some (File rows) \<Longrightarrow> lookup (writerow w c row) c = Some (File (rows @ [row]))"
  by (simp add: writerow_def lookup_def resolve_def AList.update_conv')

lemma answers_Cons:
  "answers lib fe fme ed k (img # rest) =
     (img, solve_from_image lib k (path_str img) fe fme ed) # answers lib fe fme ed (Suc k) rest"
  by (simp add: answers_def)

lemma answers_Nil [simp]: "answers lib fe fme ed k [] = []"
  by (simp add: answers_def)

lemma fatal_cases:
  "fatal out \<longleftrightarrow> (\<exists>e. out = Raises e \<and> (\<forall>m. e \<noteq> PyException m))"
  by (cases out rule: fatal.cases) auto

lemma processed_Nil [simp]: "processed lib fe fme ed k [] = []"
  by (simp add: processed_def)

lemma processed_Cons:
  "processed lib fe fme ed k (img # rest) =
     (if fatal (solve_from_image lib k (path_str img) fe fme ed) then []
      else (img, solve_from_image lib k (path_str img) fe fme ed) # processed lib fe fme ed (Suc k) rest)"
  by (simp add: processed_def answers_Cons)

lemma length_answers [simp]: "length (answers lib fe fme ed k imgs) = length imgs"
  by (simp add: answers_def)

lemma length_processed: "length (processed lib fe fme ed k imgs) \<le> length imgs"
  unfolding processed_def
  by (rule order_trans [OF length_takeWhile_le]) simp

text \<open>One turn of the loop: the solver's answer is fatal, or the loop goes on.\<close>

lemma solve_loop_fatal:
  assumes "solve_from_image lib k (path_str img) fe fme ed = Raises e" and "\<forall>m. e \<noteq> PyException m"
  shows "solve_loop lib fe fme ed writer k (img # rest) w =
           (Some e, emit (SolveCall k (path_str img))
                      (print [S (CHR 0x0A # ''Solving: ''), S (path_str img)] w))"
  using assms by (cases e) (simp_all add: Let_def)

lemma solve_loop_next:
  assumes "\<not> fatal (solve_from_image lib k (path_str img) fe fme ed)"
  shows "\<exists>line. solve_loop lib fe fme ed writer k (img # rest) w =
           solve_loop lib fe fme ed writer (Suc k) rest
             (let w2 = print line (emit (SolveCall k (path_str img))
                         (print [S (CHR 0x0A # ''Solving: ''), S (path_str img)] w))
              in case writer of
                   Some c \<Rightarrow>
                     writerow w2 c (result_row (img, solve_from_image lib k (path_str img) fe fme ed))
                 | None \<Rightarrow> w2)"
proof (cases "solve_from_image lib k (path_str img) fe fme ed")
  case (Raises e)
  with assms obtain m where m: "e = PyException m"
    by (cases e) simp_all
  show ?thesis
    by (rule exI [of _ "[S ''  ERROR during solve: '', S m]"]) (simp add: Raises m Let_def cong: option.case_cong)
next
  case (Returns res)
  show ?thesis
  proof (cases "truthy (dict_get res ''success'' (PyBool False))")
    case True
    show ?thesis
      by (rule exI [of _ "[S ''  SUCCESS  RA='', V (dict_get res ''ra_deg'' (PyStr [])),
             S ''  DEC='', V (dict_get res ''dec_deg'' (PyStr [])),
             S ''  ROT='', V (dict_get res ''rotation_deg'' (PyStr [])),
             S ''  FOV='', V (dict_get res ''fov_deg'' (PyStr []))]"])
         (simp add: Returns True Let_def cong: option.case_cong)
  next
    case False
    show ?thesis
      by (rule exI [of _ "[S ''  FAILED'']"]) (simp add: Returns False Let_def cong: option.case_cong)
  qed
qed

lemma solve_loop_run:
  "\<exists>evs.
     trace (snd (solve_loop lib fe fme ed writer k imgs w)) = trace w @ evs \<and>
     filter is_solve_call evs =
       map (\<lambda>(i, img). SolveCall i (path_str img))
         (take (Suc (length (processed lib fe fme ed k imgs))) (enumerate k imgs)) \<and>
     cwd (snd (solve_loop lib fe fme ed writer k imgs w)) = cwd w \<and>
     homes (snd (solve_loop lib fe fme ed writer k imgs w)) = homes w \<and>
     open_files (snd (solve_loop lib fe fme ed writer k imgs w)) = open_files w \<and>
     (fst (solve_loop lib fe fme ed writer k imgs w) = None \<longleftrightarrow>
        length (processed lib fe fme ed k imgs) = length imgs) \<and>
     (\<forall>e. fst (solve_loop lib fe fme ed writer k imgs w) = Some e \<longrightarrow>
        snd (answers lib fe fme ed k imgs ! length (processed lib fe fme ed k imgs)) = Raises e \<and>
        (\<forall>m. e \<noteq> PyException m)) \<and>
     (\<forall>c rows0. writer = Some c \<longrightarrow> lookup w c = Some (File rows0) \<longrightarrow>
        lookup (snd (solve_loop lib fe fme ed writer k imgs w)) c =
          Some (File (rows0 @ map result_row (processed lib fe fme ed k imgs))))"
proof (induction imgs arbitrary: k w)
  case Nil
  show ?case by simp
next
  case (Cons img rest)
  let ?out = "solve_from_image lib k (path_str img) fe fme ed"
  let ?w1 = "emit (SolveCall k (path_str img))
               (print [S (CHR 0x0A # ''Solving: ''), S (path_str img)] w)"
  show ?case
  proof (cases "fatal ?out")
    case True
    then obtain e where e: "?out = Raises e" "\<forall>m. e \<noteq> PyException m"
      by (auto simp add: fatal_cases)
    have l: "solve_loop lib fe fme ed writer k (img # rest) w = (Some e, ?w1)"
      using e by (rule solve_loop_fatal)
    have t: "fatal (Raises e)"
      using True by (simp only: e(1))
    show ?thesis
      unfolding l
      by (rule exI [of _ "[Print [S (CHR 0x0A # ''Solving: ''), S (path_str img)],
                           SolveCall k (path_str img)]"])
         (simp add: processed_Cons answers_Cons e t)
  next
    case False
    from solve_loop_next [OF False, of writer rest w] obtain line where
      l: "solve_loop lib fe fme ed writer k (img # rest) w =
            solve_loop lib fe fme ed writer (Suc k) rest
              (case writer of
                 Some c \<Rightarrow> writerow (print line ?w1) c (result_row (img, ?out))
               | None \<Rightarrow> print line ?w1)"
      by (auto simp add: Let_def)
    let ?w3 = "case writer of
                 Some c \<Rightarrow> writerow (print line ?w1) c (result_row (img, ?out))
               | None \<Rightarrow> print line ?w1"
    have f: "trace ?w3 = trace w @ [Print [S (CHR 0x0A # ''Solving: ''), S (path_str img)],
                                    SolveCall k (path_str img), Print line]"
      "cwd ?w3 = cwd w" "homes ?w3 = homes w" "open_files ?w3 = open_files w"
      by (simp_all split: option.splits)
    have c: "lookup ?w3 c = Some (File (rows0 @ [result_row (img, ?out)]))"
      if "writer = Some c" "lookup w c = Some (File rows0)" for c rows0
      using that by (simp add: lookup_writerow)
    from Cons.IH [of "Suc k" ?w3] obtain evs where
      ih: "trace (snd (solve_loop lib fe fme ed writer (Suc k) rest ?w3)) = trace ?w3 @ evs"
        "filter is_solve_call evs =
           map (\<lambda>(i, img). SolveCall i (path_str img))
             (take (Suc (length (processed lib fe fme ed (Suc k) rest))) (enumerate (Suc k) rest))"
        "cwd (snd (solve_loop lib fe fme ed writer (Suc k) rest ?w3)) = cwd ?w3"
        "homes (snd (solve_loop lib fe fme ed writer (Suc k) rest ?w3)) = homes ?w3"
        "open_files (snd (solve_loop lib fe fme ed writer (Suc k) rest ?w3)) = open_files ?w3"
        "fst (solve_loop lib fe fme ed writer (Suc k) rest ?w3) = None \<longleftrightarrow>
           length (processed lib fe fme ed (Suc k) rest) = length rest"
        "\<forall>e. fst (solve_loop lib fe fme ed writer (Suc k) rest ?w3) = Some e \<longrightarrow>
           snd (answers lib fe fme ed (Suc k) rest ! length (processed lib fe fme ed (Suc k) rest)) =
             Raises e \<and> (\<forall>m. e \<noteq> PyException m)"
        "\<forall>c rows0. writer = Some c \<longrightarrow> lookup ?w3 c = Some (File rows0) \<longrightarrow>
           lookup (snd (solve_loop lib fe fme ed writer (Suc k) rest ?w3)) c =
             Some (File (rows0 @ map result_row (processed lib fe fme ed (Suc k) rest)))"
      by (elim exE conjE) (rule that)
    show ?thesis
      unfolding l
    proof (intro exI [of _ "[Print [S (CHR 0x0A # ''Solving: ''), S (path_str img)],
                            SolveCall k (path_str img), Print line] @ evs"] conjI)
      show "trace (snd (solve_loop lib fe fme ed writer (Suc k) rest ?w3)) =
              trace w @ [Print [S (CHR 0x0A # ''Solving: ''), S (path_str img)],
                         SolveCall k (path_str img), Print line] @ evs"
        by (simp only: ih(1) f(1) append_assoc)
      show "filter is_solve_call
              ([Print [S (CHR 0x0A # ''Solving: ''), S (path_str img)],
                SolveCall k (path_str img), Print line] @ evs) =
            map (\<lambda>(i, img). SolveCall i (path_str img))
              (take (Suc (length (processed lib fe fme ed k (img # rest)))) (enumerate k (img # rest)))"
        by (simp add: ih(2) processed_Cons False)
      show "cwd (snd (solve_loop lib fe fme ed writer (Suc k) rest ?w3)) = cwd w"
        by (simp only: ih(3) f(2))
      show "homes (snd (solve_loop lib fe fme ed writer (Suc k) rest ?w3)) = homes w"
        by (simp only: ih(4) f(3))
      show "open_files (snd (solve_loop lib fe fme ed writer (Suc k) rest ?w3)) = open_files w"
        by (simp only: ih(5) f(4))
      show "fst (solve_loop lib fe fme ed writer (Suc k) rest ?w3) = None \<longleftrightarrow>
              length (processed lib fe fme ed k (img # rest)) = length (img # rest)"
        by (simp add: ih(6) processed_Cons False)
      show "\<forall>e. fst (solve_loop lib fe fme ed writer (Suc k) rest ?w3) = Some e \<longrightarrow>
              snd (answers lib fe fme ed k (img # rest) !
                   length (processed lib fe fme ed k (img # rest))) = Raises e \<and>
              (\<forall>m. e \<noteq> PyException m)"
        using ih(7) by (simp add: processed_Cons False answers_Cons)
      show "\<forall>c rows0. writer = Some c \<longrightarrow> lookup w c = Some (File rows0) \<longrightarrow>
              lookup (snd (solve_loop lib fe fme ed writer (Suc k) rest ?w3)) c =
                Some (File (rows0 @ map result_row (processed lib fe fme ed k (img # rest))))"
      proof (intro allI impI)
        fix c rows0
        assume a: "writer = Some c" "lookup w c = Some (File rows0)"
        from ih(8) a(1) c [OF a]
        have "lookup (snd (solve_loop lib fe fme ed writer (Suc k) rest ?w3)) c =
                Some (File ((rows0 @ [result_row (img, ?out)]) @
                  map result_row (processed lib fe fme ed (Suc k) rest)))"
          by blast
        then show "lookup (snd (solve_loop lib fe fme ed writer (Suc k) rest ?w3)) c =
                Some (File (rows0 @ map result_row (processed lib fe fme ed k (img # rest))))"
          by (simp add: processed_Cons False)
      qed
    qed
  qed
qed

section \<open>Before the loop\<close>

lemma mkdirs_success:
  "mkdirs tree qs = (None, tree') \<Longrightarrow>
   (\<forall>q \<in> set qs. map_of tree' q = Some Dir) \<and>
   (\<forall>p v. map_of tree p = Some v \<longrightarrow> map_of tree' p = Some v)"
proof (induction qs arbitrary: tree)
  case Nil
  then show ?case by simp
next
  case (Cons q qs)
  show ?case
  proof (cases "map_of tree q")
    case None
    with Cons.prems have m: "mkdirs (AList.update q Dir tree) qs = (None, tree')"
      by simp
    from Cons.IH [OF m] have
      ih: "\<forall>q \<in> set qs. map_of tree' q = Some Dir"
        "\<forall>p v. map_of (AList.update q Dir tree) p = Some v \<longrightarrow> map_of tree' p = Some v"
      by blast+
    from ih(2) have "map_of tree' q = Some Dir"
      by (simp add: AList.update_conv')
    moreover have "map_of tree' p = Some v" if "map_of tree p = Some v" for p v
    proof -
      from that None have "p \<noteq> q" by auto
      with that have "map_of (AList.update q Dir tree) p = Some v"
        by (simp add: AList.update_conv')
      with ih(2) show ?thesis by blast
    qed
    ultimately show ?thesis using ih(1) by simp
  next
    case (Some n)
    show ?thesis
    proof (cases n)
      case Dir
      with Some Cons.prems have m: "mkdirs tree qs = (None, tree')"
        by simp
      from Cons.IH [OF m] Some Dir show ?thesis
        by simp
    next
      case (File rows)
      with Some Cons.prems show ?thesis by simp
    qed
  qed
qed

lemma mkdir_parents_success:
  assumes "mkdir_parents w d = (None, w1)"
  shows "trace w1 = trace w @ [MkdirParents d]" "cwd w1 = cwd w" "homes w1 = homes w"
    "open_files w1 = open_files w"
    "\<forall>q \<in> set (tl (prefixes (resolve w d))). map_of (fs w1) q = Some Dir"
    "\<forall>p v. lookup w p = Some v \<longrightarrow> lookup w1 p = Some v"
proof -
  obtain err tree where m: "mkdirs (fs w) (tl (prefixes (resolve w d))) = (err, tree)"
    by (cases "mkdirs (fs w) (tl (prefixes (resolve w d)))")
  with assms have w1: "err = None" "w1 = (emit (MkdirParents d) w)\<lparr>fs := tree\<rparr>"
    by (simp_all add: mkdir_parents_def Let_def)
  show "trace w1 = trace w @ [MkdirParents d]" "cwd w1 = cwd w" "homes w1 = homes w"
    "open_files w1 = open_files w"
    by (simp_all add: w1)
  from mkdirs_success [OF m [unfolded w1(1)]] have
    t: "\<forall>q \<in> set (tl (prefixes (resolve w d))). map_of tree q = Some Dir"
      "\<forall>p v. map_of (fs w) p = Some v \<longrightarrow> map_of tree p = Some v"
    by blast+
  show "\<forall>q \<in> set (tl (prefixes (resolve w d))). map_of (fs w1) q = Some Dir"
    using t(1) by (simp add: w1)
  show "\<forall>p v. lookup w p = Some v \<longrightarrow> lookup w1 p = Some v"
    using t(2) by (simp add: w1 lookup_def resolve_def)
qed

lemma open_w_success:
  assumes "open_w w p = (None, w1)"
  shows "trace w1 = trace w @ [OpenW p]" "cwd w1 = cwd w" "homes w1 = homes w"
    "open_files w1 = insert p (open_files w)"
    "fs w1 = AList.update (resolve w p) (File []) (fs w)"
    "lookup w p \<noteq> Some Dir"
proof -
  from assms have d: "\<not> is_dir w p" and
    w1: "w1 = emit (OpenW p) (w\<lparr>fs := AList.update (resolve w p) (File []) (fs w),
                               open_files := insert p (open_files w)\<rparr>)"
    by (simp_all add: open_w_def split: if_splits)
  show "trace w1 = trace w @ [OpenW p]" "cwd w1 = cwd w" "homes w1 = homes w"
    "open_files w1 = insert p (open_files w)"
    "fs w1 = AList.update (resolve w p) (File []) (fs w)"
    by (simp_all add: w1)
  show "lookup w p \<noteq> Some Dir"
    using d by (simp add: is_dir_def)
qed

lemma open_csv_success:
  assumes "open_csv w (Some c) = (Inr wr, w1)"
  shows "\<exists>cp. expanduser w c = Inr cp \<and> wr = Some (resolve w cp) \<and>
           trace w1 = trace w @ [MkdirParents (parent (resolve w cp)), OpenW (resolve w cp)] \<and>
           cwd w1 = cwd w \<and> homes w1 = homes w \<and>
           open_files w1 = insert (resolve w cp) (open_files w) \<and>
           lookup w1 (resolve w cp) = Some (File [csv_header]) \<and>
           (\<forall>q \<in> set (tl (prefixes (resolve w (parent (resolve w cp))))).
              map_of (fs w1) q = Some Dir)"
proof -
  from assms obtain cp where cp: "expanduser w c = Inr cp"
    by (cases "expanduser w c") (simp_all add: open_csv_def)
  let ?p = "resolve w cp"
  obtain e1 wa where mk: "mkdir_parents w (parent ?p) = (e1, wa)"
    by (cases "mkdir_parents w (parent ?p)")
  with assms cp have e1: "e1 = None"
    by (cases e1) (simp_all add: open_csv_def Let_def)
  note a = mkdir_parents_success [OF mk [unfolded e1]]
  obtain e2 wb where op: "open_w wa ?p = (e2, wb)"
    by (cases "open_w wa ?p")
  with assms cp mk e1 have e2: "e2 = None"
    by (cases e2) (simp_all add: open_csv_def Let_def)
  note b = open_w_success [OF op [unfolded e2]]
  from assms cp mk e1 op e2 have wr: "wr = Some ?p" and w1: "w1 = writerow wb ?p csv_header"
    by (simp_all add: open_csv_def Let_def)
  have r: "resolve wb = resolve w" "resolve wa = resolve w"
    using a(2) b(2) by (simp_all add: fun_eq_iff resolve_def)
  have lb: "lookup wb ?p = Some (File [])"
    by (simp add: lookup_def b(5) r AList.update_conv')
  have l1: "lookup w1 ?p = Some (File [csv_header])"
    using lookup_writerow [OF lb, of csv_header] by (simp add: w1)
  have f1: "fs w1 = AList.update (resolve w ?p) (File [csv_header]) (fs wb)"
    using lb by (simp add: w1 writerow_def r)
  have dirs: "map_of (fs w1) q = Some Dir"
    if q: "q \<in> set (tl (prefixes (resolve w (parent ?p))))" for q
  proof -
    from a(5) q have qa: "map_of (fs wa) q = Some Dir"
      by blast
    have "q \<noteq> resolve w ?p"
    proof
      assume "q = resolve w ?p"
      with qa have "lookup wa ?p = Some Dir"
        by (simp add: lookup_def r)
      with b(6) show False by simp
    qed
    then show ?thesis
      using qa by (simp add: f1 b(5) r AList.update_conv')
  qed
  have t: "trace w1 = trace w @ [MkdirParents (parent ?p), OpenW ?p]"
    "cwd w1 = cwd w" "homes w1 = homes w" "open_files w1 = insert ?p (open_files w)"
    by (simp_all add: w1 a b)
  from dirs have "\<forall>q \<in> set (tl (prefixes (resolve w (parent ?p)))). map_of (fs w1) q = Some Dir"
    by blast
  with cp wr l1 t show ?thesis
    by blast
qed

lemma solve_prelude_success:
  assumes "solve_prelude lib a w = (Inr (imgs, ed, wr), w1)"
  shows "\<exists>dp w4 evs.
           expanduser w (database a) = Inr dp \<and> path_exists w (resolve w dp) \<and>
           expand_images w [] (images a) = Inr imgs \<and> imgs \<noteq> [] \<and>
           load_database lib (path_str (resolve w dp)) = None \<and>
           ed = parse_extract_dict a \<and>
           open_csv w4 (csv a) = (Inr wr, w1) \<and>
           cwd w4 = cwd w \<and> homes w4 = homes w \<and> fs w4 = fs w \<and>
           open_files w4 = open_files w \<and>
           trace w4 = trace w @ evs \<and> filter is_solve_call evs = []"
proof -
  from assms obtain dp where dp: "expanduser w (database a) = Inr dp"
    by (cases "expanduser w (database a)") (simp_all add: solve_prelude_def)
  have ex: "path_exists w (resolve w dp)"
  proof (rule ccontr)
    assume "\<not> path_exists w (resolve w dp)"
    with assms dp show False
      by (simp add: solve_prelude_def Let_def)
  qed
  from assms dp ex obtain imgs' where im: "expand_images w [] (images a) = Inr imgs'"
    by (cases "expand_images w [] (images a)") (simp_all add: solve_prelude_def Let_def)
  have ne: "imgs' \<noteq> []"
  proof
    assume "imgs' = []"
    with assms dp ex im show False
      by (simp add: solve_prelude_def Let_def)
  qed
  have ld: "load_database lib (path_str (resolve w dp)) = None"
  proof (cases "load_database lib (path_str (resolve w dp))")
    case None
    then show ?thesis .
  next
    case (Some e)
    with assms dp ex im ne show ?thesis
      by (simp add: solve_prelude_def Let_def)
  qed
  let ?w2 = "emit (LoadDatabase (path_str (resolve w dp)))
               (print [S ''['', S (clock w), S ''] Loading database: '',
                       S (path_str (resolve w dp))] (emit (Probe (resolve w dp)) w))"
  let ?w3 = "print [S ''FOV estimate: '', V (PyFloat (fov_estimate a)),
                    S '' deg  |  FOV max error: '', V (PyFloat (fov_max_error a)), S '' deg''] ?w2"
  let ?w4 = "if parse_extract_dict a \<noteq> [] then
               print (S ''extract_dict: '' #
                      concat (map (\<lambda>(k, v). [S k, V v]) (parse_extract_dict a))) ?w3
             else ?w3"
  have u: "solve_prelude lib a w =
             (case open_csv ?w4 (csv a) of
                (Inl e, w5) \<Rightarrow> (Inl e, w5)
              | (Inr csv_path, w5) \<Rightarrow> (Inr (imgs', parse_extract_dict a, csv_path), w5))"
    using dp ex im ne ld by (simp add: solve_prelude_def Let_def)
  obtain res w5 where oc: "open_csv ?w4 (csv a) = (res, w5)"
    by (cases "open_csv ?w4 (csv a)")
  note x = assms [unfolded u oc]
  have r: "res = Inr wr" "w5 = w1" "imgs' = imgs" "ed = parse_extract_dict a"
    using x by (cases res; simp)+
  have f: "cwd ?w4 = cwd w" "homes ?w4 = homes w" "fs ?w4 = fs w" "open_files ?w4 = open_files w"
    by simp_all
  have "\<exists>evs. trace ?w4 = trace w @ evs \<and> filter is_solve_call evs = []"
  proof (cases "parse_extract_dict a \<noteq> []")
    case True
    show ?thesis
      by (rule exI [of _ "[Probe (resolve w dp),
              Print [S ''['', S (clock w), S ''] Loading database: '', S (path_str (resolve w dp))],
              LoadDatabase (path_str (resolve w dp)),
              Print [S ''FOV estimate: '', V (PyFloat (fov_estimate a)),
                     S '' deg  |  FOV max error: '', V (PyFloat (fov_max_error a)), S '' deg''],
              Print (S ''extract_dict: '' #
                     concat (map (\<lambda>(k, v). [S k, V v]) (parse_extract_dict a)))]"])
         (simp add: True)
  next
    case False
    show ?thesis
      by (rule exI [of _ "[Probe (resolve w dp),
              Print [S ''['', S (clock w), S ''] Loading database: '', S (path_str (resolve w dp))],
              LoadDatabase (path_str (resolve w dp)),
              Print [S ''FOV estimate: '', V (PyFloat (fov_estimate a)),
                     S '' deg  |  FOV max error: '', V (PyFloat (fov_max_error a)), S '' deg'']]"])
         (use False in simp)
  qed
  then obtain evs where evs: "trace ?w4 = trace w @ evs" "filter is_solve_call evs = []"
    by blast
  from oc r have oc': "open_csv ?w4 (csv a) = (Inr wr, w1)"
    by simp
  from dp ex im [unfolded r(3)] ne [unfolded r(3)] ld r(4) oc' f evs
  have "expanduser w (database a) = Inr dp \<and> path_exists w (resolve w dp) \<and>
           expand_images w [] (images a) = Inr imgs \<and> imgs \<noteq> [] \<and>
           load_database lib (path_str (resolve w dp)) = None \<and>
           ed = parse_extract_dict a \<and>
           open_csv ?w4 (csv a) = (Inr wr, w1) \<and>
           cwd ?w4 = cwd w \<and> homes ?w4 = homes w \<and> fs ?w4 = fs w \<and>
           open_files ?w4 = open_files w \<and>
           trace ?w4 = trace w @ evs \<and> filter is_solve_call evs = []"
    by (intro conjI)
  then show ?thesis
    by (intro exI)
qed

lemma close_file_fields [simp]:
  "cwd (close_file w c) = cwd w" "homes (close_file w c) = homes w"
  "fs (close_file w c) = fs w" "open_files (close_file w c) = open_files w - {c}"
  "trace (close_file w c) = trace w @ [CloseF c]"
  by (simp_all add: close_file_def)

lemma lookup_close_file [simp]: "lookup (close_file w c) p = lookup w p"
  by (simp add: lookup_def resolve_def)

lemma nth_answers:
  "i < length imgs \<Longrightarrow>
   answers lib fe fme ed k imgs ! i =
     (imgs ! i, solve_from_image lib (k + i) (path_str (imgs ! i)) fe fme ed)"
  by (simp add: answers_def nth_enumerate_eq)

lemma nth_processed:
  "i < length (processed lib fe fme ed k imgs) \<Longrightarrow>
   processed lib fe fme ed k imgs ! i = answers lib fe fme ed k imgs ! i"
  unfolding processed_def by (rule takeWhile_nth)

lemma processed_all:
  assumes "\<forall>i<length imgs. \<not> fatal (solve_from_image lib (k + i) (path_str (imgs ! i)) fe fme ed)"
  shows "processed lib fe fme ed k imgs = answers lib fe fme ed k imgs"
proof -
  have "\<not> fatal (snd x)" if "x \<in> set (answers lib fe fme ed k imgs)" for x
  proof -
    from that obtain i where i: "i < length imgs" "x = answers lib fe fme ed k imgs ! i"
      by (auto simp add: in_set_conv_nth)
    with assms show ?thesis
      by (simp add: nth_answers)
  qed
  then show ?thesis
    unfolding processed_def by (intro takeWhile_eq_all_conv [THEN iffD2]) auto
qed

lemma nth_run_processed:
  assumes "i < length (run_processed lib a imgs)"
  shows "i < length imgs" "run_processed lib a imgs ! i = (imgs ! i, solver_answer lib a i (imgs ! i))"
proof -
  from assms length_processed [of lib "fov_estimate a" "fov_max_error a" "extract_arg a" 0 imgs]
  show i: "i < length imgs"
    by (simp add: run_processed_def)
  from assms have "run_processed lib a imgs ! i =
      answers lib (fov_estimate a) (fov_max_error a) (extract_arg a) 0 imgs ! i"
    unfolding run_processed_def by (rule nth_processed)
  with i show "run_processed lib a imgs ! i = (imgs ! i, solver_answer lib a i (imgs ! i))"
    by (simp add: nth_answers solver_answer_def)
qed

lemma cmd_solve_unfold:
  assumes "solve_prelude lib a w = (Inr (imgs, ed, wr), w1)"
  shows "cmd_solve lib a w =
           (fst (solve_loop lib (fov_estimate a) (fov_max_error a) (extract_arg a) wr 0 imgs w1),
            case wr of
              Some c \<Rightarrow>
                print [S (CHR 0x0A # ''[OK] Results saved to CSV: ''), S (path_str c)]
                  (close_file
                     (snd (solve_loop lib (fov_estimate a) (fov_max_error a) (extract_arg a)
                             wr 0 imgs w1)) c)
            | None \<Rightarrow>
                snd (solve_loop lib (fov_estimate a) (fov_max_error a) (extract_arg a) wr 0 imgs w1))"
proof -
  from solve_prelude_success [OF assms] have ed: "ed = parse_extract_dict a"
    by blast
  show ?thesis
    by (cases wr)
       (simp_all add: cmd_solve_def assms ed extract_arg_def split_beta)
qed

lemma cmd_solve_run:
  assumes "solve_prelude lib a w = (Inr (imgs, ed, wr), w1)"
  shows "\<exists>evs.
     trace (snd (cmd_solve lib a w)) =
       trace w1 @ evs @
       (case wr of
          Some c \<Rightarrow> [CloseF c, Print [S (CHR 0x0A # ''[OK] Results saved to CSV: ''), S (path_str c)]]
        | None \<Rightarrow> []) \<and>
     filter is_solve_call evs =
       map (\<lambda>(i, img). SolveCall i (path_str img))
         (take (Suc (length (run_processed lib a imgs))) (enumerate 0 imgs)) \<and>
     cwd (snd (cmd_solve lib a w)) = cwd w1 \<and>
     (fst (cmd_solve lib a w) = None \<longleftrightarrow> length (run_processed lib a imgs) = length imgs) \<and>
     (\<forall>e. fst (cmd_solve lib a w) = Some e \<longrightarrow>
        solver_answer lib a (length (run_processed lib a imgs))
          (imgs ! length (run_processed lib a imgs)) = Raises e \<and>
        (\<forall>m. e \<noteq> PyException m)) \<and>
     (\<forall>c. wr = Some c \<longrightarrow>
        open_files (snd (cmd_solve lib a w)) = open_files w1 - {c} \<and>
        (\<forall>rows0. lookup w1 c = Some (File rows0) \<longrightarrow>
           lookup (snd (cmd_solve lib a w)) c =
             Some (File (rows0 @ map result_row (run_processed lib a imgs)))))"
proof -
  let ?L = "solve_loop lib (fov_estimate a) (fov_max_error a) (extract_arg a) wr 0 imgs w1"
  let ?P = "processed lib (fov_estimate a) (fov_max_error a) (extract_arg a) 0 imgs"
  let ?A = "answers lib (fov_estimate a) (fov_max_error a) (extract_arg a) 0 imgs"
  from solve_loop_run [of lib "fov_estimate a" "fov_max_error a" "extract_arg a" wr 0 imgs w1]
  obtain evs where
    l: "trace (snd ?L) = trace w1 @ evs"
      "filter is_solve_call evs =
         map (\<lambda>(i, img). SolveCall i (path_str img)) (take (Suc (length ?P)) (enumerate 0 imgs))"
      "cwd (snd ?L) = cwd w1"
      "open_files (snd ?L) = open_files w1"
      "fst ?L = None \<longleftrightarrow> length ?P = length imgs"
      "\<forall>e. fst ?L = Some e \<longrightarrow> snd (?A ! length ?P) = Raises e \<and> (\<forall>m. e \<noteq> PyException m)"
      "\<forall>c rows0. wr = Some c \<longrightarrow> lookup w1 c = Some (File rows0) \<longrightarrow>
         lookup (snd ?L) c = Some (File (rows0 @ map result_row ?P))"
    by (elim exE conjE) (rule that)
  note u = cmd_solve_unfold [OF assms]
  have stop: "solver_answer lib a (length ?P) (imgs ! length ?P) = Raises e \<and> (\<forall>m. e \<noteq> PyException m)"
    if "fst ?L = Some e" for e
  proof -
    from that l(5) length_processed [of lib "fov_estimate a" "fov_max_error a" "extract_arg a" 0 imgs]
    have "length ?P < length imgs"
      by (cases "length ?P = length imgs") simp_all
    with l(6) that show ?thesis
      by (simp add: nth_answers solver_answer_def)
  qed
  show ?thesis
  proof (intro exI [of _ evs] conjI allI impI)
    show "trace (snd (cmd_solve lib a w)) =
       trace w1 @ evs @
       (case wr of
          Some c \<Rightarrow> [CloseF c, Print [S (CHR 0x0A # ''[OK] Results saved to CSV: ''), S (path_str c)]]
        | None \<Rightarrow> [])"
      using l(1) by (cases wr) (simp_all add: u)
    show "filter is_solve_call evs =
       map (\<lambda>(i, img). SolveCall i (path_str img))
         (take (Suc (length (run_processed lib a imgs))) (enumerate 0 imgs))"
      by (simp only: l(2) run_processed_def)
    show "cwd (snd (cmd_solve lib a w)) = cwd w1"
      using l(3) by (cases wr) (simp_all add: u)
    show "fst (cmd_solve lib a w) = None \<longleftrightarrow> length (run_processed lib a imgs) = length imgs"
      by (simp add: u l(5) run_processed_def)
  next
    fix e
    assume "fst (cmd_solve lib a w) = Some e"
    then have "fst ?L = Some e"
      by (simp add: u)
    from stop [OF this]
    show "solver_answer lib a (length (run_processed lib a imgs))
            (imgs ! length (run_processed lib a imgs)) = Raises e"
      and "\<And>m. e \<noteq> PyException m"
      by (simp_all add: run_processed_def)
  next
    fix c
    assume c: "wr = Some c"
    show "open_files (snd (cmd_solve lib a w)) = open_files w1 - {c}"
      by (simp add: u c l(4) [unfolded c])
    fix rows0
    assume "lookup w1 c = Some (File rows0)"
    with l(7) c have "lookup (snd ?L) c = Some (File (rows0 @ map result_row ?P))"
      by blast
    then show "lookup (snd (cmd_solve lib a w)) c =
             Some (File (rows0 @ map result_row (run_processed lib a imgs)))"
      by (simp add: u c run_processed_def)
  qed
qed

lemma prelude_with_csv:
  assumes "solve_prelude lib a w = (Inr (imgs, ed, wr), w1)" and "csv a = Some carg"
  shows "\<exists>cp evs.
           expanduser w carg = Inr cp \<and> wr = Some (resolve w cp) \<and>
           trace w1 = trace w @ evs @ [MkdirParents (parent (resolve w cp)), OpenW (resolve w cp)] \<and>
           filter is_solve_call evs = [] \<and>
           cwd w1 = cwd w \<and>
           open_files w1 = insert (resolve w cp) (open_files w) \<and>
           lookup w1 (resolve w cp) = Some (File [csv_header]) \<and>
           (\<forall>q \<in> set (tl (prefixes (resolve w (parent (resolve w cp))))).
              map_of (fs w1) q = Some Dir)"
proof -
  from solve_prelude_success [OF assms(1)] obtain w4 evs where
    p: "open_csv w4 (csv a) = (Inr wr, w1)" "cwd w4 = cwd w" "homes w4 = homes w" "fs w4 = fs w"
      "open_files w4 = open_files w" "trace w4 = trace w @ evs" "filter is_solve_call evs = []"
    by (elim exE conjE) (rule that)
  note v = same_view [OF p(2,3,4)]
  from open_csv_success [OF p(1) [unfolded assms(2)]] obtain cp where
    c: "expanduser w4 carg = Inr cp" "wr = Some (resolve w4 cp)"
      "trace w1 = trace w4 @ [MkdirParents (parent (resolve w4 cp)), OpenW (resolve w4 cp)]"
      "cwd w1 = cwd w4" "open_files w1 = insert (resolve w4 cp) (open_files w4)"
      "lookup w1 (resolve w4 cp) = Some (File [csv_header])"
      "\<forall>q \<in> set (tl (prefixes (resolve w4 (parent (resolve w4 cp))))). map_of (fs w1) q = Some Dir"
    by (elim exE conjE) (rule that)
  from c p(2,5,6,7)
  have "expanduser w carg = Inr cp \<and> wr = Some (resolve w cp) \<and>
           trace w1 = trace w @ evs @ [MkdirParents (parent (resolve w cp)), OpenW (resolve w cp)] \<and>
           filter is_solve_call evs = [] \<and>
           cwd w1 = cwd w \<and>
           open_files w1 = insert (resolve w cp) (open_files w) \<and>
           lookup w1 (resolve w cp) = Some (File [csv_header]) \<and>
           (\<forall>q \<in> set (tl (prefixes (resolve w (parent (resolve w cp))))).
              map_of (fs w1) q = Some Dir)"
    by (simp add: v)
  then show ?thesis
    by (intro exI)
qed

lemma prelude_writer:
  assumes "solve_prelude lib a w = (Inr (imgs, ed, Some c), w1)"
  shows "\<exists>carg. csv a = Some carg"
proof -
  from solve_prelude_success [OF assms] obtain w4 where
    p: "open_csv w4 (csv a) = (Inr (Some c), w1)"
    by (elim exE conjE) (rule that)
  then show ?thesis
    by (cases "csv a") (simp_all add: open_csv_def)
qed

lemma prelude_trace:
  assumes "solve_prelude lib a w = (Inr (imgs, ed, wr), w1)"
  shows "\<exists>evs. trace w1 = trace w @ evs \<and> filter is_solve_call evs = []"
proof (cases "csv a")
  case None
  from solve_prelude_success [OF assms] obtain w4 evs where
    p: "open_csv w4 (csv a) = (Inr wr, w1)" "trace w4 = trace w @ evs" "filter is_solve_call evs = []"
    by (elim exE conjE) (rule that)
  from p(1) None have "w1 = w4"
    by (simp add: open_csv_def)
  with p(2,3) show ?thesis
    by blast
next
  case (Some carg)
  from prelude_with_csv [OF assms Some] obtain cp evs where
    "trace w1 = trace w @ evs @ [MkdirParents (parent (resolve w cp)), OpenW (resolve w cp)]"
    "filter is_solve_call evs = []"
    by (elim exE conjE) (rule that)
  then show ?thesis
    by (intro exI [of _ "evs @ [MkdirParents (parent (resolve w cp)), OpenW (resolve w cp)]"]) simp
qed

lemma prelude_csv_file:
  assumes "solve_prelude lib a w = (Inr (imgs, ed, Some c), w1)"
  shows "lookup w1 c = Some (File [csv_header])" "c \<in> open_files w1"
    "\<exists>evs. trace w1 = trace w @ evs @ [MkdirParents (parent c), OpenW c] \<and>
           filter is_solve_call evs = []"
proof -
  from prelude_writer [OF assms] obtain carg where carg: "csv a = Some carg"
    by blast
  from prelude_with_csv [OF assms carg] obtain cp evs where
    c: "Some c = Some (resolve w cp)"
      "trace w1 = trace w @ evs @ [MkdirParents (parent (resolve w cp)), OpenW (resolve w cp)]"
      "filter is_solve_call evs = []"
      "open_files w1 = insert (resolve w cp) (open_files w)"
      "lookup w1 (resolve w cp) = Some (File [csv_header])"
    by (elim exE conjE) (rule that)
  from c(1) have e: "resolve w cp = c"
    by simp
  show "lookup w1 c = Some (File [csv_header])"
    using c(5) by (simp only: e)
  show "c \<in> open_files w1"
    using c(4) by (simp add: e)
  show "\<exists>evs. trace w1 = trace w @ evs @ [MkdirParents (parent c), OpenW c] \<and>
           filter is_solve_call evs = []"
    using c(2,3) unfolding e by blast
qed

lemma map_enumerate_index:
  "map (\<lambda>(i, x). f i x) (enumerate 0 xs) = map (\<lambda>i. f i (xs ! i)) [0..<length xs]"
  by (rule nth_equalityI) (simp_all add: nth_enumerate_eq)

lemma hd_result_row [simp]: "hd (result_row (img, out)) = PyStr (path_str img)"
  by (cases out) simp_all

lemma length_result_row [simp]: "length (result_row x) = 6"
  by (cases x rule: result_row.cases) simp_all

lemma run_processed_all:
  assumes "\<forall>i<length imgs. \<forall>e. solver_answer lib a i (imgs ! i) = Raises e \<longrightarrow> (\<exists>m. e = PyException m)"
  shows "length (run_processed lib a imgs) = length imgs"
proof -
  have "\<forall>i<length imgs.
          \<not> fatal (solve_from_image lib (0 + i) (path_str (imgs ! i)) (fov_estimate a)
                     (fov_max_error a) (extract_arg a))"
    using assms by (auto simp add: fatal_cases solver_answer_def)
  then have "run_processed lib a imgs =
               answers lib (fov_estimate a) (fov_max_error a) (extract_arg a) 0 imgs"
    unfolding run_processed_def by (rule processed_all)
  then show ?thesis by simp
qed

lemma exit_code_returned:
  "fst (cmd_solve lib a w) = None \<Longrightarrow> exit_code lib (Solve a) w = 0"
  by (cases "cmd_solve lib a w") (simp add: exit_code_def main_def)

text \<open>
  C1. Take a run of the solve command that reaches its loop, with \<open>imgs\<close> the expanded
  image sequence, and a solver that, when it raises, raises an \<^verbatim>\<open>Exception\<close>. Then
  \<^verbatim>\<open>cmd_solve\<close> returns normally and the process exits with code 0; the solver is
  called once for every image, in the order of the sequence; and with CSV logging the
  file holds the header and one row per image in that order, the row of an image whose
  solve raised being the image, \<^verbatim>\<open>False\<close> and four empty fields.
\<close>

theorem solve_failures_isolated:
  assumes pre: "solve_prelude lib a w = (Inr (imgs, ed, wr), w1)"
    and ok: "\<forall>i<length imgs. \<forall>e. solver_answer lib a i (imgs ! i) = Raises e \<longrightarrow>
               (\<exists>m. e = PyException m)"
  shows "fst (cmd_solve lib a w) = None \<and> exit_code lib (Solve a) w = 0 \<and>
         filter is_solve_call (drop (length (trace w)) (trace (snd (cmd_solve lib a w)))) =
           map (\<lambda>i. SolveCall i (path_str (imgs ! i))) [0..<length imgs] \<and>
         (\<forall>c. wr = Some c \<longrightarrow>
            (\<exists>rows. lookup (snd (cmd_solve lib a w)) c = Some (File (csv_header # rows)) \<and>
                    length rows = length imgs \<and>
                    (\<forall>i<length imgs.
                       hd (rows ! i) = PyStr (path_str (imgs ! i)) \<and>
                       (\<forall>e. solver_answer lib a i (imgs ! i) = Raises e \<longrightarrow>
                          rows ! i = [PyStr (path_str (imgs ! i)), PyBool False,
                                      PyStr [], PyStr [], PyStr [], PyStr []]))))"
proof -
  note n = run_processed_all [OF ok]
  from cmd_solve_run [OF pre] obtain evs where
    r: "trace (snd (cmd_solve lib a w)) =
          trace w1 @ evs @
          (case wr of
             Some c \<Rightarrow> [CloseF c, Print [S (CHR 0x0A # ''[OK] Results saved to CSV: ''), S (path_str c)]]
           | None \<Rightarrow> [])"
      "filter is_solve_call evs =
         map (\<lambda>(i, img). SolveCall i (path_str img))
           (take (Suc (length (run_processed lib a imgs))) (enumerate 0 imgs))"
      "fst (cmd_solve lib a w) = None \<longleftrightarrow> length (run_processed lib a imgs) = length imgs"
      "\<forall>c. wr = Some c \<longrightarrow>
         (\<forall>rows0. lookup w1 c = Some (File rows0) \<longrightarrow>
            lookup (snd (cmd_solve lib a w)) c =
              Some (File (rows0 @ map result_row (run_processed lib a imgs))))"
    by (elim exE conjE) (rule that, blast+)
  from r(3) n have ret: "fst (cmd_solve lib a w) = None"
    by simp
  from prelude_trace [OF pre] obtain evs0 where
    t: "trace w1 = trace w @ evs0" "filter is_solve_call evs0 = []"
    by blast
  have calls: "filter is_solve_call (drop (length (trace w)) (trace (snd (cmd_solve lib a w)))) =
           map (\<lambda>i. SolveCall i (path_str (imgs ! i))) [0..<length imgs]"
  proof -
    have "filter is_solve_call (drop (length (trace w)) (trace (snd (cmd_solve lib a w)))) =
            filter is_solve_call evs"
      by (cases wr) (simp_all add: r(1) t)
    also have "\<dots> = map (\<lambda>(i, img). SolveCall i (path_str img)) (enumerate 0 imgs)"
      by (simp add: r(2) n)
    also have "\<dots> = map (\<lambda>i. SolveCall i (path_str (imgs ! i))) [0..<length imgs]"
      by (rule map_enumerate_index)
    finally show ?thesis .
  qed
  have rows: "\<exists>rows. lookup (snd (cmd_solve lib a w)) c = Some (File (csv_header # rows)) \<and>
                    length rows = length imgs \<and>
                    (\<forall>i<length imgs.
                       hd (rows ! i) = PyStr (path_str (imgs ! i)) \<and>
                       (\<forall>e. solver_answer lib a i (imgs ! i) = Raises e \<longrightarrow>
                          rows ! i = [PyStr (path_str (imgs ! i)), PyBool False,
                                      PyStr [], PyStr [], PyStr [], PyStr []]))"
    if c: "wr = Some c" for c
  proof (intro exI [of _ "map result_row (run_processed lib a imgs)"] conjI allI impI)
    from prelude_csv_file(1) [OF pre [unfolded c]] r(4) c
    show "lookup (snd (cmd_solve lib a w)) c =
            Some (File (csv_header # map result_row (run_processed lib a imgs)))"
      by simp
    show "length (map result_row (run_processed lib a imgs)) = length imgs"
      by (simp add: n)
  next
    fix i
    assume i: "i < length imgs"
    then have p: "run_processed lib a imgs ! i = (imgs ! i, solver_answer lib a i (imgs ! i))"
      by (intro nth_run_processed) (simp add: n)
    show "hd (map result_row (run_processed lib a imgs) ! i) = PyStr (path_str (imgs ! i))"
      using i by (simp add: n p)
    fix e
    assume "solver_answer lib a i (imgs ! i) = Raises e"
    then show "map result_row (run_processed lib a imgs) ! i =
                 [PyStr (path_str (imgs ! i)), PyBool False, PyStr [], PyStr [], PyStr [], PyStr []]"
      using i by (simp add: n p)
  qed
  from ret exit_code_returned [OF ret] calls rows show ?thesis
    by blast
qed

section \<open>When the loop is reached\<close>

lemma mkdir_parents_view:
  assumes "cwd w' = cwd w" "homes w' = homes w" "fs w' = fs w"
  shows "fst (mkdir_parents w' d) = fst (mkdir_parents w d)"
    "cwd (snd (mkdir_parents w' d)) = cwd (snd (mkdir_parents w d))"
    "homes (snd (mkdir_parents w' d)) = homes (snd (mkdir_parents w d))"
    "fs (snd (mkdir_parents w' d)) = fs (snd (mkdir_parents w d))"
  using assms
  by (simp_all add: mkdir_parents_def Let_def split_beta same_view(1) [OF assms])

lemma open_w_view:
  assumes "cwd w' = cwd w" "homes w' = homes w" "fs w' = fs w"
  shows "fst (open_w w' p) = fst (open_w w p)"
  by (simp add: open_w_def same_view(1,4) [OF assms])

lemma open_csv_view:
  assumes "cwd w' = cwd w" "homes w' = homes w" "fs w' = fs w"
  shows "fst (open_csv w' c) = fst (open_csv w c)"
proof (cases c)
  case None
  then show ?thesis by (simp add: open_csv_def)
next
  case (Some carg)
  note v = same_view(1,5) [OF assms]
  show ?thesis
  proof (cases "expanduser w carg")
    case (Inl e)
    then show ?thesis by (simp add: open_csv_def Some v)
  next
    case (Inr cp)
    let ?p = "resolve w cp"
    note m = mkdir_parents_view [OF assms, of "parent ?p"]
    obtain e1 wa where a: "mkdir_parents w (parent ?p) = (e1, wa)"
      by (cases "mkdir_parents w (parent ?p)")
    obtain e1' wa' where a': "mkdir_parents w' (parent ?p) = (e1', wa')"
      by (cases "mkdir_parents w' (parent ?p)")
    from m a a' have e: "e1' = e1" "cwd wa' = cwd wa" "homes wa' = homes wa" "fs wa' = fs wa"
      by simp_all
    note o = open_w_view [OF e(2,3,4), of ?p]
    show ?thesis
      by (cases e1; cases "open_w wa ?p"; cases "open_w wa' ?p")
         (use o in \<open>auto simp add: open_csv_def Some v Inr a a' e(1) Let_def split: option.splits\<close>)
  qed
qed

lemma prelude_reached:
  assumes "expanduser w (database a) = Inr dp"
    and "path_exists w (resolve w dp)"
    and "expand_images w [] (images a) = Inr imgs"
    and "imgs \<noteq> []"
    and "load_database lib (path_str (resolve w dp)) = None"
    and "fst (open_csv w (csv a)) = Inr wr"
  shows "\<exists>w1. solve_prelude lib a w = (Inr (imgs, parse_extract_dict a, wr), w1)"
proof -
  let ?w2 = "emit (LoadDatabase (path_str (resolve w dp)))
               (print [S ''['', S (clock w), S ''] Loading database: '',
                       S (path_str (resolve w dp))] (emit (Probe (resolve w dp)) w))"
  let ?w3 = "print [S ''FOV estimate: '', V (PyFloat (fov_estimate a)),
                    S '' deg  |  FOV max error: '', V (PyFloat (fov_max_error a)), S '' deg''] ?w2"
  let ?w4 = "if parse_extract_dict a \<noteq> [] then
               print (S ''extract_dict: '' #
                      concat (map (\<lambda>(k, v). [S k, V v]) (parse_extract_dict a))) ?w3
             else ?w3"
  have u: "solve_prelude lib a w =
             (case open_csv ?w4 (csv a) of
                (Inl e, w5) \<Rightarrow> (Inl e, w5)
              | (Inr csv_path, w5) \<Rightarrow> (Inr (imgs, parse_extract_dict a, csv_path), w5))"
    using assms(1-5) by (simp add: solve_prelude_def Let_def)
  have "fst (open_csv ?w4 (csv a)) = fst (open_csv w (csv a))"
    by (rule open_csv_view) simp_all
  with assms(6) have f: "fst (open_csv ?w4 (csv a)) = Inr wr"
    by (simp only:)
  obtain r w5 where oc: "open_csv ?w4 (csv a) = (r, w5)"
    by (cases "open_csv ?w4 (csv a)")
  from f [unfolded oc] have r: "r = Inr wr"
    by simp
  from u [unfolded oc] have "solve_prelude lib a w = (Inr (imgs, parse_extract_dict a, wr), w5)"
    by (simp add: r)
  then show ?thesis ..
qed

lemma demo_solve_facts:
  "expanduser demo_world (database demo_args) = Inr [''db.npz'']"
  "path_exists demo_world (resolve demo_world [''db.npz''])"
  "path_str (resolve demo_world [''db.npz'']) = ''/work/db.npz''"
  "expand_images demo_world [] (images demo_args) =
     Inr [[''pics'', ''a.jpg''], [''pics'', ''b.png''], [''pics'', ''c.fits'']]"
  "fst (open_csv demo_world (csv demo_args)) = Inr (Some [''/'', ''work'', ''out'', ''old.csv''])"
  "parse_extract_dict demo_args =
     [(''min_sum'', PyInt 500), (''max_axis_ratio'', PyFloat (3 / 2)), (''min_distance'', PyInt 4)]"
  by code_simp+

lemma demo_prelude:
  assumes "load_database lib ''/work/db.npz'' = None"
  shows "solve_prelude lib demo_args demo_world =
           (Inr ([[''pics'', ''a.jpg''], [''pics'', ''b.png''], [''pics'', ''c.fits'']],
                 [(''min_sum'', PyInt 500), (''max_axis_ratio'', PyFloat (3 / 2)),
                  (''min_distance'', PyInt 4)],
                 Some [''/'', ''work'', ''out'', ''old.csv'']),
            snd (solve_prelude lib demo_args demo_world))"
proof -
  have "load_database lib (path_str (resolve demo_world [''db.npz''])) = None"
    using assms by (simp only: demo_solve_facts(3))
  from prelude_reached [OF demo_solve_facts(1,2,4) _ this demo_solve_facts(5)]
  obtain w1 where "solve_prelude lib demo_args demo_world =
           (Inr ([[''pics'', ''a.jpg''], [''pics'', ''b.png''], [''pics'', ''c.fits'']],
                 parse_extract_dict demo_args, Some [''/'', ''work'', ''out'', ''old.csv'']), w1)"
    by auto
  then show ?thesis
    by (simp add: demo_solve_facts(6))
qed

theorem solve_failures_isolated_witness:
  "fst (solve_prelude demo_lib demo_args demo_world) =
     Inr ([[''pics'', ''a.jpg''], [''pics'', ''b.png''], [''pics'', ''c.fits'']],
          [(''min_sum'', PyInt 500), (''max_axis_ratio'', PyFloat (3 / 2)), (''min_distance'', PyInt 4)],
          Some [''/'', ''work'', ''out'', ''old.csv'']) \<and>
   solver_answer demo_lib demo_args 1 [''pics'', ''b.png''] = Raises (PyException ''no stars found'') \<and>
   fst (cmd_solve demo_lib demo_args demo_world) = None \<and>
   exit_code demo_lib (Solve demo_args) demo_world = 0 \<and>
   (\<exists>rows. lookup (snd (cmd_solve demo_lib demo_args demo_world)) [''/'', ''work'', ''out'', ''old.csv''] =
             Some (File (csv_header # rows)) \<and>
           length rows = 3 \<and>
           rows ! 1 = [PyStr ''pics/b.png'', PyBool False, PyStr [], PyStr [], PyStr [], PyStr []])"
proof -
  have l: "load_database demo_lib ''/work/db.npz'' = None"
    by (simp add: demo_lib_def)
  note pre = demo_prelude [OF l]
  have a: "solver_answer demo_lib demo_args 1 [''pics'', ''b.png''] = Raises (PyException ''no stars found'')"
    by (simp add: solver_answer_def demo_lib_def)
  have ok: "\<forall>i<length [[''pics'', ''a.jpg''], [''pics'', ''b.png''], [''pics'', ''c.fits'']].
              \<forall>e. solver_answer demo_lib demo_args i
                     ([[''pics'', ''a.jpg''], [''pics'', ''b.png''], [''pics'', ''c.fits'']] ! i) = Raises e \<longrightarrow>
                   (\<exists>m. e = PyException m)"
    by (simp add: solver_answer_def demo_lib_def)
  from solve_failures_isolated [OF pre ok] obtain rows where
    t: "fst (cmd_solve demo_lib demo_args demo_world) = None"
      "exit_code demo_lib (Solve demo_args) demo_world = 0"
      "lookup (snd (cmd_solve demo_lib demo_args demo_world)) [''/'', ''work'', ''out'', ''old.csv''] =
         Some (File (csv_header # rows))"
      "length rows = 3"
      "\<forall>i<3. \<forall>e. solver_answer demo_lib demo_args i
                     ([[''pics'', ''a.jpg''], [''pics'', ''b.png''], [''pics'', ''c.fits'']] ! i) = Raises e \<longrightarrow>
                rows ! i = [PyStr (path_str ([[''pics'', ''a.jpg''], [''pics'', ''b.png''],
                                               [''pics'', ''c.fits'']] ! i)),
                            PyBool False, PyStr [], PyStr [], PyStr [], PyStr []]"
    by auto
  from t(5) a have "rows ! 1 = [PyStr (path_str [''pics'', ''b.png'']), PyBool False,
                                PyStr [], PyStr [], PyStr [], PyStr []]"
    by (auto dest!: spec [of _ 1])
  then have "rows ! 1 = [PyStr ''pics/b.png'', PyBool False, PyStr [], PyStr [], PyStr [], PyStr []]"
    by (simp add: path_str_def)
  moreover note pf = arg_cong [where f = fst, OF pre, unfolded fst_conv]
  ultimately show ?thesis
    using t(1-4) a pf by blast
qed

section \<open>The CSV file of a run\<close>

lemma csv_rows:
  assumes "solve_prelude lib a w = (Inr (imgs, ed, Some c), w1)"
  shows "lookup (snd (cmd_solve lib a w)) c =
           Some (File (csv_header # map result_row (run_processed lib a imgs)))"
    and "open_files (snd (cmd_solve lib a w)) = open_files w1 - {c}"
    and "\<exists>evs. trace (snd (cmd_solve lib a w)) =
           trace w1 @ evs @
           [CloseF c, Print [S (CHR 0x0A # ''[OK] Results saved to CSV: ''), S (path_str c)]]"
    and "fst (cmd_solve lib a w) = None \<longleftrightarrow> length (run_processed lib a imgs) = length imgs"
    and "\<forall>e. fst (cmd_solve lib a w) = Some e \<longrightarrow> (\<forall>m. e \<noteq> PyException m)"
proof -
  from cmd_solve_run [OF assms] obtain evs where
    r: "trace (snd (cmd_solve lib a w)) =
          trace w1 @ evs @
          (case Some c of
             Some c \<Rightarrow> [CloseF c, Print [S (CHR 0x0A # ''[OK] Results saved to CSV: ''), S (path_str c)]]
           | None \<Rightarrow> [])"
      "fst (cmd_solve lib a w) = None \<longleftrightarrow> length (run_processed lib a imgs) = length imgs"
      "\<forall>e. fst (cmd_solve lib a w) = Some e \<longrightarrow>
         solver_answer lib a (length (run_processed lib a imgs))
           (imgs ! length (run_processed lib a imgs)) = Raises e \<and>
         (\<forall>m. e \<noteq> PyException m)"
      "\<forall>c'. Some c = Some c' \<longrightarrow>
         open_files (snd (cmd_solve lib a w)) = open_files w1 - {c'} \<and>
         (\<forall>rows0. lookup w1 c' = Some (File rows0) \<longrightarrow>
            lookup (snd (cmd_solve lib a w)) c' =
              Some (File (rows0 @ map result_row (run_processed lib a imgs))))"
    by (elim exE conjE) (rule that, blast+)
  note h = prelude_csv_file(1) [OF assms]
  from r(4) h show "lookup (snd (cmd_solve lib a w)) c =
           Some (File (csv_header # map result_row (run_processed lib a imgs)))"
    by simp
  from r(4) show "open_files (snd (cmd_solve lib a w)) = open_files w1 - {c}"
    by simp
  from r(1) show "\<exists>evs. trace (snd (cmd_solve lib a w)) =
           trace w1 @ evs @
           [CloseF c, Print [S (CHR 0x0A # ''[OK] Results saved to CSV: ''), S (path_str c)]]"
    by (intro exI [of _ evs]) simp
  from r(2) show "fst (cmd_solve lib a w) = None \<longleftrightarrow> length (run_processed lib a imgs) = length imgs" .
  from r(3) show "\<forall>e. fst (cmd_solve lib a w) = Some e \<longrightarrow> (\<forall>m. e \<noteq> PyException m)"
    by blast
qed

lemma rows_images:
  "map hd (map result_row (run_processed lib a imgs)) =
     map (\<lambda>img. PyStr (path_str img)) (take (length (run_processed lib a imgs)) imgs)"
proof (rule nth_equalityI)
  have le: "length (run_processed lib a imgs) \<le> length imgs"
    unfolding run_processed_def by (rule length_processed)
  then show "length (map hd (map result_row (run_processed lib a imgs))) =
        length (map (\<lambda>img. PyStr (path_str img)) (take (length (run_processed lib a imgs)) imgs))"
    by simp
  fix i
  assume "i < length (map hd (map result_row (run_processed lib a imgs)))"
  then have i: "i < length (run_processed lib a imgs)"
    by simp
  from nth_run_processed [OF i] i
  show "map hd (map result_row (run_processed lib a imgs)) ! i =
        map (\<lambda>img. PyStr (path_str img)) (take (length (run_processed lib a imgs)) imgs) ! i"
    by simp
qed

lemma demo_rows:
  "map result_row (run_processed demo_lib demo_args
       [[''pics'', ''a.jpg''], [''pics'', ''b.png''], [''pics'', ''c.fits'']]) =
     [[PyStr ''pics/a.jpg'', PyBool True, PyFloat 10, PyFloat 20, PyFloat 30, PyFloat 35],
      [PyStr ''pics/b.png'', PyBool False, PyStr [], PyStr [], PyStr [], PyStr []],
      [PyStr ''pics/c.fits'', PyBool True, PyFloat 10, PyFloat 20, PyFloat 30, PyFloat 35]]"
  "map result_row (run_processed demo_lib_interrupt demo_args
       [[''pics'', ''a.jpg''], [''pics'', ''b.png''], [''pics'', ''c.fits'']]) =
     [[PyStr ''pics/a.jpg'', PyBool True, PyFloat 10, PyFloat 20, PyFloat 30, PyFloat 35]]"
  "map result_row (run_processed demo_lib_nomatch demo_args
       [[''pics'', ''a.jpg''], [''pics'', ''b.png''], [''pics'', ''c.fits'']]) =
     [[PyStr ''pics/a.jpg'', PyBool False, PyFloat (3 / 2), PyStr [], PyStr [], PyStr []],
      [PyStr ''pics/b.png'', PyBool False, PyFloat (3 / 2), PyStr [], PyStr [], PyStr []],
      [PyStr ''pics/c.fits'', PyBool False, PyFloat (3 / 2), PyStr [], PyStr [], PyStr []]]"
  by code_simp+

lemma demo_loads:
  "load_database demo_lib ''/work/db.npz'' = None"
  "load_database demo_lib_interrupt ''/work/db.npz'' = None"
  "load_database demo_lib_nomatch ''/work/db.npz'' = None"
  by (simp_all add: demo_lib_def demo_lib_interrupt_def demo_lib_nomatch_def)

text \<open>
  C2. With CSV logging, when the loop is reached: the open of the CSV file is the last
  event before the loop, no solve call precedes it, and the file then holds exactly the
  header row. When \<^verbatim>\<open>cmd_solve\<close> ends, by returning or by an exception that left the
  loop, the file holds the header and one row for every image the loop got through,
  in the order of the images, and it is closed: the close and the closing message are
  the last two events of the command.
\<close>

theorem csv_written_and_closed:
  assumes "solve_prelude lib a w = (Inr (imgs, ed, Some c), w1)"
  shows "lookup w1 c = Some (File [csv_header]) \<and> c \<in> open_files w1 \<and>
         (\<exists>evs. trace w1 = trace w @ evs @ [MkdirParents (parent c), OpenW c] \<and>
                 filter is_solve_call evs = []) \<and>
         (\<exists>rows. lookup (snd (cmd_solve lib a w)) c = Some (File (csv_header # rows)) \<and>
                  length rows = length (run_processed lib a imgs) \<and>
                  map hd rows =
                    map (\<lambda>img. PyStr (path_str img)) (take (length (run_processed lib a imgs)) imgs)) \<and>
         c \<notin> open_files (snd (cmd_solve lib a w)) \<and>
         (\<exists>evs. trace (snd (cmd_solve lib a w)) =
                  trace w1 @ evs @
                  [CloseF c, Print [S (CHR 0x0A # ''[OK] Results saved to CSV: ''), S (path_str c)]]) \<and>
         (fst (cmd_solve lib a w) = None \<longleftrightarrow> length (run_processed lib a imgs) = length imgs) \<and>
         (\<forall>e. fst (cmd_solve lib a w) = Some e \<longrightarrow> (\<forall>m. e \<noteq> PyException m))"
proof -
  note p = prelude_csv_file [OF assms]
  note r = csv_rows [OF assms]
  have rows: "\<exists>rows. lookup (snd (cmd_solve lib a w)) c = Some (File (csv_header # rows)) \<and>
                  length rows = length (run_processed lib a imgs) \<and>
                  map hd rows =
                    map (\<lambda>img. PyStr (path_str img)) (take (length (run_processed lib a imgs)) imgs)"
    by (intro exI [of _ "map result_row (run_processed lib a imgs)"] conjI r(1) rows_images) simp
  have closed: "c \<notin> open_files (snd (cmd_solve lib a w))"
    by (simp add: r(2))
  from p rows closed r(3,4,5) show ?thesis
    by (intro conjI)
qed

theorem csv_written_and_closed_witness:
  "fst (cmd_solve demo_lib_interrupt demo_args demo_world) \<noteq> None \<and>
   lookup (snd (solve_prelude demo_lib_interrupt demo_args demo_world))
     [''/'', ''work'', ''out'', ''old.csv''] = Some (File [csv_header]) \<and>
   (\<exists>rows. lookup (snd (cmd_solve demo_lib_interrupt demo_args demo_world))
              [''/'', ''work'', ''out'', ''old.csv''] = Some (File (csv_header # rows)) \<and>
           map hd rows = [PyStr ''pics/a.jpg'']) \<and>
   [''/'', ''work'', ''out'', ''old.csv''] \<notin> open_files (snd (cmd_solve demo_lib_interrupt demo_args demo_world)) \<and>
   fst (cmd_solve demo_lib demo_args demo_world) = None \<and>
   [''/'', ''work'', ''out'', ''old.csv''] \<notin> open_files (snd (cmd_solve demo_lib demo_args demo_world))"
proof -
  note t = csv_written_and_closed [OF demo_prelude [OF demo_loads(2)]]
  note u = csv_written_and_closed [OF demo_prelude [OF demo_loads(1)]]
  have n: "length (run_processed demo_lib_interrupt demo_args
             [[''pics'', ''a.jpg''], [''pics'', ''b.png''], [''pics'', ''c.fits'']]) = 1"
    "length (run_processed demo_lib demo_args
             [[''pics'', ''a.jpg''], [''pics'', ''b.png''], [''pics'', ''c.fits'']]) = 3"
    using arg_cong [where f = length, OF demo_rows(2)] arg_cong [where f = length, OF demo_rows(1)]
    by simp_all
  from t n(1) have a: "fst (cmd_solve demo_lib_interrupt demo_args demo_world) \<noteq> None"
    "lookup (snd (solve_prelude demo_lib_interrupt demo_args demo_world))
       [''/'', ''work'', ''out'', ''old.csv''] = Some (File [csv_header])"
    "[''/'', ''work'', ''out'', ''old.csv''] \<notin> open_files (snd (cmd_solve demo_lib_interrupt demo_args demo_world))"
    by simp_all
  from t obtain rows where
    "lookup (snd (cmd_solve demo_lib_interrupt demo_args demo_world))
       [''/'', ''work'', ''out'', ''old.csv''] = Some (File (csv_header # rows))"
    "map hd rows = map (\<lambda>img. PyStr (path_str img))
       (take (length (run_processed demo_lib_interrupt demo_args
                [[''pics'', ''a.jpg''], [''pics'', ''b.png''], [''pics'', ''c.fits'']]))
          [[''pics'', ''a.jpg''], [''pics'', ''b.png''], [''pics'', ''c.fits'']])"
    by blast
  then have b: "\<exists>rows. lookup (snd (cmd_solve demo_lib_interrupt demo_args demo_world))
              [''/'', ''work'', ''out'', ''old.csv''] = Some (File (csv_header # rows)) \<and>
           map hd rows = [PyStr ''pics/a.jpg'']"
    by (intro exI [of _ rows]) (simp add: n(1) path_str_def)
  from u n(2) have c: "fst (cmd_solve demo_lib demo_args demo_world) = None"
    "[''/'', ''work'', ''out'', ''old.csv''] \<notin> open_files (snd (cmd_solve demo_lib demo_args demo_world))"
    by simp_all
  from a b c show ?thesis
    by (intro conjI)
qed

text \<open>
  C9 as stated fails: a solver that returns without error, reports \<^verbatim>\<open>success\<close> false
  and still carries a right ascension gets that value written to the CSV row.
\<close>

theorem failed_row_fields_counterexample:
  "lookup (snd (cmd_solve demo_lib_nomatch demo_args demo_world))
     [''/'', ''work'', ''out'', ''old.csv''] =
   Some (File [csv_header,
     [PyStr ''pics/a.jpg'', PyBool False, PyFloat (3 / 2), PyStr [], PyStr [], PyStr []],
     [PyStr ''pics/b.png'', PyBool False, PyFloat (3 / 2), PyStr [], PyStr [], PyStr []],
     [PyStr ''pics/c.fits'', PyBool False, PyFloat (3 / 2), PyStr [], PyStr [], PyStr []]])"
  using csv_rows(1) [OF demo_prelude [OF demo_loads(3)]]
  by (simp only: demo_rows(3))

text \<open>
  C9, amended. The row of a solve that raised an error has \<^verbatim>\<open>False\<close> and four empty
  fields. The row of a solve that returned holds the truth value of the reply's
  \<^verbatim>\<open>success\<close> and, in each positional field, what the reply holds under that key,
  the empty string where the key is absent; this is so whether or not the reply reports
  success.
\<close>

theorem failed_row_fields:
  assumes "solve_prelude lib a w = (Inr (imgs, ed, Some c), w1)"
  shows "\<exists>rows. lookup (snd (cmd_solve lib a w)) c = Some (File (csv_header # rows)) \<and>
           length rows = length (run_processed lib a imgs) \<and>
           (\<forall>i<length rows.
              (\<forall>e. solver_answer lib a i (imgs ! i) = Raises e \<longrightarrow>
                 rows ! i = [PyStr (path_str (imgs ! i)), PyBool False,
                             PyStr [], PyStr [], PyStr [], PyStr []]) \<and>
              (\<forall>res. solver_answer lib a i (imgs ! i) = Returns res \<longrightarrow>
                 rows ! i = [PyStr (path_str (imgs ! i)),
                             PyBool (truthy (case res ''success'' of None \<Rightarrow> PyBool False | Some v \<Rightarrow> v)),
                             (case res ''ra_deg'' of None \<Rightarrow> PyStr [] | Some v \<Rightarrow> v),
                             (case res ''dec_deg'' of None \<Rightarrow> PyStr [] | Some v \<Rightarrow> v),
                             (case res ''rotation_deg'' of None \<Rightarrow> PyStr [] | Some v \<Rightarrow> v),
                             (case res ''fov_deg'' of None \<Rightarrow> PyStr [] | Some v \<Rightarrow> v)]))"
proof (intro exI [of _ "map result_row (run_processed lib a imgs)"] conjI allI impI)
  show "lookup (snd (cmd_solve lib a w)) c =
          Some (File (csv_header # map result_row (run_processed lib a imgs)))"
    by (rule csv_rows(1) [OF assms])
  show "length (map result_row (run_processed lib a imgs)) = length (run_processed lib a imgs)"
    by simp
next
  fix i e
  assume "i < length (map result_row (run_processed lib a imgs))"
  then have i: "i < length (run_processed lib a imgs)"
    by simp
  assume "solver_answer lib a i (imgs ! i) = Raises e"
  with nth_run_processed(2) [OF i] i
  show "map result_row (run_processed lib a imgs) ! i =
          [PyStr (path_str (imgs ! i)), PyBool False, PyStr [], PyStr [], PyStr [], PyStr []]"
    by simp
next
  fix i res
  assume "i < length (map result_row (run_processed lib a imgs))"
  then have i: "i < length (run_processed lib a imgs)"
    by simp
  assume "solver_answer lib a i (imgs ! i) = Returns res"
  with nth_run_processed(2) [OF i] i
  show "map result_row (run_processed lib a imgs) ! i =
          [PyStr (path_str (imgs ! i)),
           PyBool (truthy (case res ''success'' of None \<Rightarrow> PyBool False | Some v \<Rightarrow> v)),
           (case res ''ra_deg'' of None \<Rightarrow> PyStr [] | Some v \<Rightarrow> v),
           (case res ''dec_deg'' of None \<Rightarrow> PyStr [] | Some v \<Rightarrow> v),
           (case res ''rotation_deg'' of None \<Rightarrow> PyStr [] | Some v \<Rightarrow> v),
           (case res ''fov_deg'' of None \<Rightarrow> PyStr [] | Some v \<Rightarrow> v)]"
    by (simp add: dict_get_def)
qed

theorem failed_row_fields_witness:
  "solver_answer demo_lib demo_args 1 [''pics'', ''b.png''] = Raises (PyException ''no stars found'') \<and>
   (\<exists>rows. lookup (snd (cmd_solve demo_lib demo_args demo_world))
              [''/'', ''work'', ''out'', ''old.csv''] = Some (File (csv_header # rows)) \<and>
           length rows = 3 \<and>
           rows ! 1 = [PyStr ''pics/b.png'', PyBool False, PyStr [], PyStr [], PyStr [], PyStr []] \<and>
           rows ! 0 = [PyStr ''pics/a.jpg'', PyBool True, PyFloat 10, PyFloat 20, PyFloat 30, PyFloat 35])"
proof -
  have n: "length (run_processed demo_lib demo_args
             [[''pics'', ''a.jpg''], [''pics'', ''b.png''], [''pics'', ''c.fits'']]) = 3"
    using arg_cong [where f = length, OF demo_rows(1)] by simp
  have a: "solver_answer demo_lib demo_args 1 [''pics'', ''b.png''] = Raises (PyException ''no stars found'')"
    "solver_answer demo_lib demo_args 0 [''pics'', ''a.jpg''] =
       Returns [''success'' \<mapsto> PyBool True, ''ra_deg'' \<mapsto> PyFloat 10,
                ''dec_deg'' \<mapsto> PyFloat 20, ''rotation_deg'' \<mapsto> PyFloat 30,
                ''fov_deg'' \<mapsto> PyFloat 35]"
    by (simp_all add: solver_answer_def demo_lib_def)
  from failed_row_fields [OF demo_prelude [OF demo_loads(1)]] obtain rows where
    r: "lookup (snd (cmd_solve demo_lib demo_args demo_world))
          [''/'', ''work'', ''out'', ''old.csv''] = Some (File (csv_header # rows))"
      "length rows = length (run_processed demo_lib demo_args
             [[''pics'', ''a.jpg''], [''pics'', ''b.png''], [''pics'', ''c.fits'']])"
      "\<forall>i<length rows.
              (\<forall>e. solver_answer demo_lib demo_args i
                      ([[''pics'', ''a.jpg''], [''pics'', ''b.png''], [''pics'', ''c.fits'']] ! i) = Raises e \<longrightarrow>
                 rows ! i = [PyStr (path_str ([[''pics'', ''a.jpg''], [''pics'', ''b.png''],
                                               [''pics'', ''c.fits'']] ! i)), PyBool False,
                             PyStr [], PyStr [], PyStr [], PyStr []]) \<and>
              (\<forall>res. solver_answer demo_lib demo_args i
                        ([[''pics'', ''a.jpg''], [''pics'', ''b.png''], [''pics'', ''c.fits'']] ! i) = Returns res \<longrightarrow>
                 rows ! i = [PyStr (path_str ([[''pics'', ''a.jpg''], [''pics'', ''b.png''],
                                               [''pics'', ''c.fits'']] ! i)),
                             PyBool (truthy (case res ''success'' of None \<Rightarrow> PyBool False | Some v \<Rightarrow> v)),
                             (case res ''ra_deg'' of None \<Rightarrow> PyStr [] | Some v \<Rightarrow> v),
                             (case res ''dec_deg'' of None \<Rightarrow> PyStr [] | Some v \<Rightarrow> v),
                             (case res ''rotation_deg'' of None \<Rightarrow> PyStr [] | Some v \<Rightarrow> v),
                             (case res ''fov_deg'' of None \<Rightarrow> PyStr [] | Some v \<Rightarrow> v)])"
    by (elim exE conjE) (rule that)
  from r(2) n have l: "length rows = 3"
    by simp
  from r(3) [rule_format, of 1] l a(1)
  have r1: "rows ! 1 = [PyStr ''pics/b.png'', PyBool False, PyStr [], PyStr [], PyStr [], PyStr []]"
    by (simp add: path_str_def)
  from r(3) [rule_format, of 0] l a(2)
  have r0: "rows ! 0 = [PyStr ''pics/a.jpg'', PyBool True, PyFloat 10, PyFloat 20, PyFloat 30, PyFloat 35]"
    by (simp add: path_str_def)
  from a(1) r(1) l r1 r0 show ?thesis
    by blast
qed

text \<open>
  C10. With a CSV path given, when the loop is reached: the creation of the parent
  directories and then the open of the file are the last two events before the loop;
  every ancestor directory of the resolved CSV path is then a directory; the file holds
  exactly the header row, whatever the path held before; and when the command ends the
  file holds the header and the rows of this run, nothing else.
\<close>

theorem csv_truncated:
  assumes "solve_prelude lib a w = (Inr (imgs, ed, wr), w1)" and "csv a = Some carg"
  shows "\<exists>cp. expanduser w carg = Inr cp \<and> wr = Some (resolve w cp) \<and>
           (\<exists>evs. trace w1 =
                     trace w @ evs @ [MkdirParents (parent (resolve w cp)), OpenW (resolve w cp)] \<and>
                   filter is_solve_call evs = []) \<and>
           (\<forall>q \<in> set (tl (prefixes (resolve w (parent (resolve w cp))))).
              map_of (fs w1) q = Some Dir) \<and>
           lookup w1 (resolve w cp) = Some (File [csv_header]) \<and>
           lookup (snd (cmd_solve lib a w)) (resolve w cp) =
             Some (File (csv_header # map result_row (run_processed lib a imgs)))"
proof -
  from prelude_with_csv [OF assms] obtain cp evs where
    c: "expanduser w carg = Inr cp" "wr = Some (resolve w cp)"
      "trace w1 = trace w @ evs @ [MkdirParents (parent (resolve w cp)), OpenW (resolve w cp)]"
      "filter is_solve_call evs = []"
      "lookup w1 (resolve w cp) = Some (File [csv_header])"
      "\<forall>q \<in> set (tl (prefixes (resolve w (parent (resolve w cp))))). map_of (fs w1) q = Some Dir"
    by (elim exE conjE) (rule that)
  note r = csv_rows(1) [OF assms(1) [unfolded c(2)]]
  from c(3,4) have "\<exists>evs. trace w1 =
                     trace w @ evs @ [MkdirParents (parent (resolve w cp)), OpenW (resolve w cp)] \<and>
                   filter is_solve_call evs = []"
    by blast
  with c(1,2,5,6) r show ?thesis
    by (intro exI [of _ cp] conjI)
qed

lemma demo_old_facts:
  "fst (open_csv demo_world (Some [''old.csv''])) = Inr (Some [''/'', ''work'', ''old.csv''])"
  "lookup demo_world [''old.csv''] = Some (File [[PyStr ''stale'']])"
  "lookup demo_world [''/'', ''work'', ''out''] = None"
  "expanduser demo_world [''old.csv''] = Inr [''old.csv'']"
  "resolve demo_world [''old.csv''] = [''/'', ''work'', ''old.csv'']"
  "expanduser demo_world [''out'', ''old.csv''] = Inr [''out'', ''old.csv'']"
  "resolve demo_world [''out'', ''old.csv''] = [''/'', ''work'', ''out'', ''old.csv'']"
  "tl (prefixes (resolve demo_world (parent [''/'', ''work'', ''out'', ''old.csv'']))) =
     [[''/''], [''/'', ''work''], [''/'', ''work'', ''out'']]"
  "map result_row (run_processed demo_lib (demo_args\<lparr>csv := Some [''old.csv'']\<rparr>)
       [[''pics'', ''a.jpg''], [''pics'', ''b.png''], [''pics'', ''c.fits'']]) =
     [[PyStr ''pics/a.jpg'', PyBool True, PyFloat 10, PyFloat 20, PyFloat 30, PyFloat 35],
      [PyStr ''pics/b.png'', PyBool False, PyStr [], PyStr [], PyStr [], PyStr []],
      [PyStr ''pics/c.fits'', PyBool True, PyFloat 10, PyFloat 20, PyFloat 30, PyFloat 35]]"
  by code_simp+

lemma demo_prelude_old:
  assumes "load_database lib ''/work/db.npz'' = None"
  shows "solve_prelude lib (demo_args\<lparr>csv := Some [''old.csv'']\<rparr>) demo_world =
           (Inr ([[''pics'', ''a.jpg''], [''pics'', ''b.png''], [''pics'', ''c.fits'']],
                 [(''min_sum'', PyInt 500), (''max_axis_ratio'', PyFloat (3 / 2)),
                  (''min_distance'', PyInt 4)],
                 Some [''/'', ''work'', ''old.csv'']),
            snd (solve_prelude lib (demo_args\<lparr>csv := Some [''old.csv'']\<rparr>) demo_world))"
proof -
  let ?a = "demo_args\<lparr>csv := Some [''old.csv'']\<rparr>"
  have f: "expanduser demo_world (database ?a) = Inr [''db.npz'']"
    "expand_images demo_world [] (images ?a) =
       Inr [[''pics'', ''a.jpg''], [''pics'', ''b.png''], [''pics'', ''c.fits'']]"
    "fst (open_csv demo_world (csv ?a)) = Inr (Some [''/'', ''work'', ''old.csv''])"
    "parse_extract_dict ?a =
       [(''min_sum'', PyInt 500), (''max_axis_ratio'', PyFloat (3 / 2)), (''min_distance'', PyInt 4)]"
    using demo_solve_facts(1,4,6) demo_old_facts(1)
    by (simp_all add: parse_extract_dict_def del: expand_images.simps)
  have "load_database lib (path_str (resolve demo_world [''db.npz''])) = None"
    using assms by (simp only: demo_solve_facts(3))
  from prelude_reached [OF f(1) demo_solve_facts(2) f(2) _ this f(3)]
  obtain w1 where "solve_prelude lib ?a demo_world =
           (Inr ([[''pics'', ''a.jpg''], [''pics'', ''b.png''], [''pics'', ''c.fits'']],
                 parse_extract_dict ?a, Some [''/'', ''work'', ''old.csv'']), w1)"
    by auto
  then show ?thesis
    by (simp add: f(4))
qed

theorem csv_truncated_witness:
  "lookup demo_world [''old.csv''] = Some (File [[PyStr ''stale'']]) \<and>
   lookup (snd (solve_prelude demo_lib (demo_args\<lparr>csv := Some [''old.csv'']\<rparr>) demo_world))
     [''/'', ''work'', ''old.csv''] = Some (File [csv_header]) \<and>
   lookup (snd (cmd_solve demo_lib (demo_args\<lparr>csv := Some [''old.csv'']\<rparr>) demo_world))
     [''/'', ''work'', ''old.csv''] =
     Some (File [csv_header,
       [PyStr ''pics/a.jpg'', PyBool True, PyFloat 10, PyFloat 20, PyFloat 30, PyFloat 35],
       [PyStr ''pics/b.png'', PyBool False, PyStr [], PyStr [], PyStr [], PyStr []],
       [PyStr ''pics/c.fits'', PyBool True, PyFloat 10, PyFloat 20, PyFloat 30, PyFloat 35]]) \<and>
   lookup demo_world [''/'', ''work'', ''out''] = None \<and>
   map_of (fs (snd (solve_prelude demo_lib demo_args demo_world))) [''/'', ''work'', ''out''] = Some Dir"
proof -
  have c: "csv (demo_args\<lparr>csv := Some [''old.csv'']\<rparr>) = Some [''old.csv'']"
    "csv demo_args = Some [''out'', ''old.csv'']"
    by (simp_all add: demo_args_def)
  from csv_truncated [OF demo_prelude_old [OF demo_loads(1)] c(1)] obtain cp where
    a: "expanduser demo_world [''old.csv''] = Inr cp"
      "lookup (snd (solve_prelude demo_lib (demo_args\<lparr>csv := Some [''old.csv'']\<rparr>) demo_world))
         (resolve demo_world cp) = Some (File [csv_header])"
      "lookup (snd (cmd_solve demo_lib (demo_args\<lparr>csv := Some [''old.csv'']\<rparr>) demo_world))
         (resolve demo_world cp) =
       Some (File (csv_header # map result_row
         (run_processed demo_lib (demo_args\<lparr>csv := Some [''old.csv'']\<rparr>)
            [[''pics'', ''a.jpg''], [''pics'', ''b.png''], [''pics'', ''c.fits'']])))"
    by (elim exE conjE) (rule that)
  from a(1) have cp: "cp = [''old.csv'']"
    by (simp add: demo_old_facts(4))
  from csv_truncated [OF demo_prelude [OF demo_loads(1)] c(2)] obtain cq where
    b: "expanduser demo_world [''out'', ''old.csv''] = Inr cq"
      "\<forall>q \<in> set (tl (prefixes (resolve demo_world (parent (resolve demo_world cq))))).
         map_of (fs (snd (solve_prelude demo_lib demo_args demo_world))) q = Some Dir"
    by (elim exE conjE) (rule that)
  from b(1) have cq: "cq = [''out'', ''old.csv'']"
    by (simp add: demo_old_facts(6))
  from b(2) have d: "map_of (fs (snd (solve_prelude demo_lib demo_args demo_world)))
                       [''/'', ''work'', ''out''] = Some Dir"
    unfolding cq demo_old_facts(7) demo_old_facts(8) by simp
  from a(2,3) d demo_old_facts(2,3) show ?thesis
    unfolding cp demo_old_facts(5) demo_old_facts(9) by (intro conjI)
qed

section \<open>The working directory of generate-db\<close>

lemma resolve_absolute:
  "is_absolute (cwd w) \<Longrightarrow> is_absolute (resolve w p)"
  by (cases "cwd w") (simp_all add: resolve_def is_absolute_def)

lemma resolve_of_absolute [simp]: "is_absolute p \<Longrightarrow> resolve w p = p"
  by (simp add: resolve_def)

lemma mkdir_parents_frame:
  "cwd (snd (mkdir_parents w d)) = cwd w" "homes (snd (mkdir_parents w d)) = homes w"
  "trace (snd (mkdir_parents w d)) = trace w @ [MkdirParents d]"
  by (simp_all add: mkdir_parents_def Let_def split_beta)

lemma probe_dirs_frame:
  "cwd (snd (probe_dirs w ds f)) = cwd w \<and> homes (snd (probe_dirs w ds f)) = homes w \<and>
   fs (snd (probe_dirs w ds f)) = fs w \<and>
   (\<exists>evs. trace (snd (probe_dirs w ds f)) = trace w @ evs \<and> filter cwd_event evs = [])"
proof (induction ds arbitrary: w)
  case Nil
  show ?case by simp
next
  case (Cons d ds)
  show ?case
  proof (cases "path_exists w (joinpath d f)")
    case True
    then show ?thesis
      by (simp add: Let_def)
  next
    case False
    from Cons.IH [of "emit (Probe (joinpath d f)) w"] obtain evs where
      "trace (snd (probe_dirs (emit (Probe (joinpath d f)) w) ds f)) =
         trace (emit (Probe (joinpath d f)) w) @ evs" "filter cwd_event evs = []"
      by blast
    then have "\<exists>evs. trace (snd (probe_dirs (emit (Probe (joinpath d f)) w) ds f)) = trace w @ evs \<and>
                 filter cwd_event evs = []"
      by (intro exI [of _ "Probe (joinpath d f) # evs"]) simp
    with Cons.IH [of "emit (Probe (joinpath d f)) w"] False show ?thesis
      by (simp add: Let_def)
  qed
qed

lemma ensure_frame:
  "cwd (snd (ensure_catalog_available name cdir w)) = cwd w \<and>
   homes (snd (ensure_catalog_available name cdir w)) = homes w \<and>
   fs (snd (ensure_catalog_available name cdir w)) = fs w \<and>
   (\<exists>evs. trace (snd (ensure_catalog_available name cdir w)) = trace w @ evs \<and>
          filter cwd_event evs = [])"
proof (cases "map_of required name")
  case None
  then show ?thesis
    by (simp add: ensure_catalog_available_def)
next
  case (Some f)
  obtain found w1 where p: "probe_dirs w (search_dirs cdir w) f = (found, w1)"
    by (cases "probe_dirs w (search_dirs cdir w) f")
  from probe_dirs_frame [of w "search_dirs cdir w" f] p obtain evs where
    f: "cwd w1 = cwd w" "homes w1 = homes w" "fs w1 = fs w" "trace w1 = trace w @ evs"
      "filter cwd_event evs = []"
    by auto
  show ?thesis
  proof (cases found)
    case True
    with f show ?thesis
      by (simp add: ensure_supported [OF Some] p)
  next
    case False
    have "\<exists>evs'. trace (snd (ensure_catalog_available name cdir w)) = trace w1 @ evs' \<and>
            filter cwd_event evs' = []"
      by (simp add: ensure_supported [OF Some] p False)
    then obtain evs' where
      "trace (snd (ensure_catalog_available name cdir w)) = trace w @ evs @ evs'"
      "filter cwd_event evs' = []"
      by (auto simp add: f(4))
    with f(5) have "\<exists>evs. trace (snd (ensure_catalog_available name cdir w)) = trace w @ evs \<and>
          filter cwd_event evs = []"
      by (intro exI [of _ "evs @ evs'"]) simp
    then show ?thesis
      using f(1,2,3) by (simp add: ensure_supported [OF Some] p False)
  qed
qed

lemma pushd_missing:
  "\<not> is_dir w d \<Longrightarrow> pushd d body w = (Some (PyException ''FileNotFoundError''), w)"
  by (simp add: pushd_def chdir_def)

lemma pushd_generate:
  assumes abs: "is_absolute (cwd w)" "is_absolute d"
    and dir: "is_dir w d"
    and here: "map_of (fs w) (cwd w) = Some Dir"
    and keep: "keeps_directory lib (cwd w)"
  shows "cwd (snd (pushd d (generate_db_core lib a out_path) w)) = cwd w \<and>
         trace (snd (pushd d (generate_db_core lib a out_path) w)) =
           trace w @ [Chdir d,
                      GenerateCall d (min_fov a) (max_fov a) (star_catalog a)
                        (star_max_magnitude a) (path_str out_path),
                      Chdir (cwd w)]"
proof -
  let ?w1 = "emit (Chdir d) (w\<lparr>cwd := d\<rparr>)"
  have c1: "chdir w d = (None, ?w1)"
    using dir abs(2) by (simp add: chdir_def)
  obtain err tree dir' where
    g: "generate_database lib (fs w) d (min_fov a) (max_fov a) (star_catalog a)
          (star_max_magnitude a) (path_str out_path) = (err, tree, dir')"
    by (cases "generate_database lib (fs w) d (min_fov a) (max_fov a) (star_catalog a)
                 (star_max_magnitude a) (path_str out_path)") auto
  let ?w2 = "(emit (GenerateCall d (min_fov a) (max_fov a) (star_catalog a)
                      (star_max_magnitude a) (path_str out_path)) ?w1)\<lparr>fs := tree, cwd := dir'\<rparr>"
  have body: "generate_db_core lib a out_path ?w1 = (err, ?w2)"
    by (simp add: generate_db_core_def Let_def g)
  from keep here g have "map_of tree (cwd w) = Some Dir"
    unfolding keeps_directory_def
    by (metis fst_conv snd_conv)
  then have again: "is_dir ?w2 (cwd w)"
    using abs(1) by (simp add: is_dir_def lookup_def)
  have c2: "chdir ?w2 (cwd w) = (None, emit (Chdir (cwd w)) (?w2\<lparr>cwd := cwd w\<rparr>))"
    using again abs(1) by (simp add: chdir_def)
  have "pushd d (generate_db_core lib a out_path) w =
          (err, emit (Chdir (cwd w)) (?w2\<lparr>cwd := cwd w\<rparr>))"
    by (simp add: pushd_def c1 body c2 del: emit_fields)
  then show ?thesis
    by simp
qed

text \<open>
  C3. Take a generate-db run with a catalog directory, in a process whose working
  directory is an absolute path to a directory that the external generator leaves in
  place. Whatever way the command ends, by returning, by an exit of its own or by an
  exception of the generator, the working directory is afterwards what it was before.
  The command either never touches it, or changes to the resolved catalog directory,
  calls the generator there and changes back, with nothing in between.
\<close>

theorem working_directory_restored:
  assumes cd: "catalog_dir a = Some c"
    and abs: "is_absolute (cwd w)"
    and here: "map_of (fs w) (cwd w) = Some Dir"
    and keep: "keeps_directory lib (cwd w)"
  shows "cwd (snd (cmd_generate_db lib a w)) = cwd w \<and>
         (filter cwd_event (drop (length (trace w)) (trace (snd (cmd_generate_db lib a w)))) = [] \<or>
          (\<exists>cp op. expanduser w c = Inr cp \<and> expanduser w (out_file a) = Inr op \<and>
             filter cwd_event (drop (length (trace w)) (trace (snd (cmd_generate_db lib a w)))) =
               [Chdir (resolve w cp),
                GenerateCall (resolve w cp) (min_fov a) (max_fov a) (star_catalog a)
                  (star_max_magnitude a) (path_str (resolve w op)),
                Chdir (cwd w)]))"
proof (cases "expanduser w (out_file a)")
  case (Inl e)
  then show ?thesis
    by (simp add: cmd_generate_db_def)
next
  case (Inr op)
  let ?out = "resolve w op"
  obtain e1 w1 where mk: "mkdir_parents w (parent ?out) = (e1, w1)"
    by (cases "mkdir_parents w (parent ?out)")
  from mkdir_parents_frame [of w "parent ?out"] mk have
    f1: "cwd w1 = cwd w" "homes w1 = homes w" "trace w1 = trace w @ [MkdirParents (parent ?out)]"
    by simp_all
  show ?thesis
  proof (cases e1)
    case (Some e)
    then show ?thesis
      by (simp add: cmd_generate_db_def Inr mk f1 Let_def)
  next
    case None
    have "lookup w (cwd w) = Some Dir"
      using here abs by (simp add: lookup_def)
    with mkdir_parents_success(6) [OF mk [unfolded None]] have "lookup w1 (cwd w) = Some Dir"
      by blast
    then have here1: "map_of (fs w1) (cwd w) = Some Dir"
      using abs by (simp add: lookup_def)
    have xu: "expanduser w1 c = expanduser w c"
      unfolding expanduser_def f1(2) by (rule refl)
    show ?thesis
    proof (cases "expanduser w c")
      case (Inl e)
      then show ?thesis
        by (simp add: cmd_generate_db_def Inr mk None cd xu f1 Let_def)
    next
      case cp: (Inr cp)
      have rs: "resolve w1 cp = resolve w cp"
        by (simp add: resolve_def f1(1))
      let ?d = "resolve w cp"
      obtain e2 w2 where en: "ensure_catalog_available (star_catalog a) (Some ?d) w1 = (e2, w2)"
        by (cases "ensure_catalog_available (star_catalog a) (Some ?d) w1")
      from ensure_frame [of "star_catalog a" "Some ?d" w1] en obtain evs2 where
        f2: "cwd w2 = cwd w1" "homes w2 = homes w1" "fs w2 = fs w1" "trace w2 = trace w1 @ evs2"
          "filter cwd_event evs2 = []"
        by auto
      show ?thesis
      proof (cases e2)
        case (Some e)
        then show ?thesis
          by (simp add: cmd_generate_db_def Inr mk None cd xu cp rs en f1 f2 Let_def)
      next
        case n2: None
        let ?w3 = "print [S ''  output db        : '', S (path_str ?out)]
                  (print [S ''  mag limit        : '', V (PyFloat (star_max_magnitude a))]
                  (print [S ''  FOV range (deg)  : '', V (PyFloat (min_fov a)),
                          S '' -> '', V (PyFloat (max_fov a))]
                  (print [S ''  catalog_dir      : '', S (path_str ?d)]
                  (print [S ''  star_catalog     : '', S (star_catalog a)]
                  (print [S ''['', S (clock w2), S ''] Generating database...''] w2)))))"
        have f3: "cwd ?w3 = cwd w" "fs ?w3 = fs w1"
          "trace ?w3 = trace w @ MkdirParents (parent ?out) # evs2 @
             [Print [S ''['', S (clock w2), S ''] Generating database...''],
              Print [S ''  star_catalog     : '', S (star_catalog a)],
              Print [S ''  catalog_dir      : '', S (path_str ?d)],
              Print [S ''  FOV range (deg)  : '', V (PyFloat (min_fov a)),
                     S '' -> '', V (PyFloat (max_fov a))],
              Print [S ''  mag limit        : '', V (PyFloat (star_max_magnitude a))],
              Print [S ''  output db        : '', S (path_str ?out)]]"
          by (simp_all add: f1 f2)
        have u: "cmd_generate_db lib a w =
                   (case pushd ?d (generate_db_core lib a ?out) ?w3 of
                      (Some e, w4) \<Rightarrow> (Some e, w4)
                    | (None, w4) \<Rightarrow>
                        (None, print [S ''[OK] Database created: '', S (path_str ?out)] w4))"
          by (simp add: cmd_generate_db_def Inr mk None cd xu cp rs en n2 Let_def)
        obtain r w4 where pd: "pushd ?d (generate_db_core lib a ?out) ?w3 = (r, w4)"
          by (cases "pushd ?d (generate_db_core lib a ?out) ?w3")
        have fin: "cwd (snd (cmd_generate_db lib a w)) = cwd w4 \<and>
                   filter cwd_event (drop (length (trace w)) (trace (snd (cmd_generate_db lib a w)))) =
                   filter cwd_event (drop (length (trace w)) (trace w4))"
          if "\<exists>evs. trace w4 = trace w @ evs"
          using that unfolding u pd by (cases r) auto
        show ?thesis
        proof (cases "is_dir ?w3 ?d")
          case False
          from pushd_missing [OF False, of "generate_db_core lib a ?out"] pd
          have w4: "w4 = ?w3"
            by simp
          have "\<exists>evs. trace w4 = trace w @ evs"
            unfolding w4 f3(3) by blast
          from fin [OF this] show ?thesis
            unfolding w4 by (simp add: f3(1) f1 f2)
        next
          case True
          have a3: "is_absolute (cwd ?w3)" "map_of (fs ?w3) (cwd ?w3) = Some Dir"
            "keeps_directory lib (cwd ?w3)"
            using abs here1 keep by (simp_all only: f3(1,2))
          from pushd_generate [OF a3(1) resolve_absolute [OF abs, of cp] True a3(2,3),
              of a ?out] pd
          have w4: "cwd w4 = cwd w"
            "trace w4 = trace ?w3 @ [Chdir ?d,
                      GenerateCall ?d (min_fov a) (max_fov a) (star_catalog a)
                        (star_max_magnitude a) (path_str ?out),
                      Chdir (cwd w)]"
            by (simp_all only: snd_conv f3(1))
          have t4: "trace w4 = trace w @ (MkdirParents (parent ?out) # evs2 @
             [Print [S ''['', S (clock w2), S ''] Generating database...''],
              Print [S ''  star_catalog     : '', S (star_catalog a)],
              Print [S ''  catalog_dir      : '', S (path_str ?d)],
              Print [S ''  FOV range (deg)  : '', V (PyFloat (min_fov a)),
                     S '' -> '', V (PyFloat (max_fov a))],
              Print [S ''  mag limit        : '', V (PyFloat (star_max_magnitude a))],
              Print [S ''  output db        : '', S (path_str ?out)],
              Chdir ?d,
              GenerateCall ?d (min_fov a) (max_fov a) (star_catalog a)
                (star_max_magnitude a) (path_str ?out),
              Chdir (cwd w)])"
            unfolding w4(2) f3(3) by simp
          then have "\<exists>evs. trace w4 = trace w @ evs"
            by (rule exI)
          from fin [OF this]
          have "cwd (snd (cmd_generate_db lib a w)) = cwd w"
            "filter cwd_event (drop (length (trace w)) (trace (snd (cmd_generate_db lib a w)))) =
               [Chdir ?d,
                GenerateCall ?d (min_fov a) (max_fov a) (star_catalog a)
                  (star_max_magnitude a) (path_str ?out),
                Chdir (cwd w)]"
            by (simp_all add: w4(1) t4 f2(5))
          with cp Inr show ?thesis
            by blast
        qed
      qed
    qed
  qed
qed

theorem working_directory_restored_witness:
  "catalog_dir demo_gen_args = Some [''/'', ''cat''] \<and> is_absolute (cwd demo_world) \<and>
   map_of (fs demo_world) (cwd demo_world) = Some Dir \<and>
   keeps_directory demo_lib_failing (cwd demo_world) \<and>
   fst (cmd_generate_db demo_lib_failing demo_gen_args demo_world) =
     Some (PyException ''catalog unreadable'') \<and>
   cwd (snd (cmd_generate_db demo_lib_failing demo_gen_args demo_world)) = [''/'', ''work''] \<and>
   filter cwd_event (trace (snd (cmd_generate_db demo_lib_failing demo_gen_args demo_world))) =
     [Chdir [''/'', ''cat''],
      GenerateCall [''/'', ''cat''] 30 36 ''hip_main'' 8 ''/work/db.npz'',
      Chdir [''/'', ''work'']]"
proof -
  have h: "catalog_dir demo_gen_args = Some [''/'', ''cat'']" "is_absolute (cwd demo_world)"
    "map_of (fs demo_world) (cwd demo_world) = Some Dir"
    by (simp_all add: demo_gen_args_def demo_world_def is_absolute_def)
  have k: "keeps_directory demo_lib_failing (cwd demo_world)"
    by (simp add: keeps_directory_def demo_lib_failing_def)
  have c: "cwd demo_world = [''/'', ''work'']"
    by (simp add: demo_world_def)
  have e: "fst (cmd_generate_db demo_lib_failing demo_gen_args demo_world) =
     Some (PyException ''catalog unreadable'')"
    "filter cwd_event (trace (snd (cmd_generate_db demo_lib_failing demo_gen_args demo_world))) =
     [Chdir [''/'', ''cat''],
      GenerateCall [''/'', ''cat''] 30 36 ''hip_main'' 8 ''/work/db.npz'',
      Chdir [''/'', ''work'']]"
    by code_simp+
  from working_directory_restored [OF h k]
  have "cwd (snd (cmd_generate_db demo_lib_failing demo_gen_args demo_world)) = cwd demo_world"
    by blast
  then have "cwd (snd (cmd_generate_db demo_lib_failing demo_gen_args demo_world)) = [''/'', ''work'']"
    by (simp only: c)
  with h k e show ?thesis
    by (intro conjI)
qed

end
